theory Spec2Isabelle
  imports Complex_Main "HOL-Library.Sublist"
begin

section \<open>The thinking-budget sampling loop of \<^verbatim>\<open>s1.py\<close>\<close>

text \<open>
  The script drives an external model-serving component and an external tokenizer. Both are
  parameters of the embedding: the tokenizer as a record of the two functions the script
  calls, the model as a \<open>generate\<close> function that threads a state of the model's own
  (its random generator, a mock's script position), since two calls with the same input
  need not return the same text. What the script itself computes (string splitting,
  indexing, the loop, the final call, the figures of the summary) is embedded as written.
\<close>

subsection \<open>Data\<close>

datatype py_error = IndexError | ValueError

text \<open>The fields a \<^verbatim>\<open>SamplingParams\<close> object is given by the script; an absent \<^verbatim>\<open>stop\<close> is
  \<open>None\<close>. The literal \<^verbatim>\<open>0.7\<close> is kept as the rational it denotes.\<close>

record sampling_params =
  temperature :: rat
  max_tokens :: int
  stop :: "string option"
  skip_special_tokens :: bool

text \<open>
  The constructor \<^verbatim>\<open>SamplingParams(temperature=, max_tokens=, stop=, skip_special_tokens=)\<close>
  is the serving library's (imported at line 1, not part of the repository). It checks its
  arguments and raises \<^verbatim>\<open>ValueError\<close> when \<^verbatim>\<open>max_tokens\<close> is below 1; the other arguments
  the script passes (the temperature 0.7, a non-empty stop string or none) pass its checks.
\<close>

definition SamplingParams :: "rat \<Rightarrow> int \<Rightarrow> string option \<Rightarrow> bool \<Rightarrow> py_error + sampling_params" where
  "SamplingParams t n st sk =
     (if n < 1 then Inl ValueError
      else Inr \<lparr>temperature = t, max_tokens = n, stop = st, skip_special_tokens = sk\<rparr>)"

text \<open>The result of \<^verbatim>\<open>generate\<close> is a list of request outputs, each with the echoed
  \<^verbatim>\<open>prompt\<close> and a list \<^verbatim>\<open>outputs\<close> of completions, each with its \<^verbatim>\<open>text\<close>.\<close>

record completion_output =
  co_text :: string

record request_output =
  ro_prompt :: string
  ro_outputs :: "completion_output list"

record message =
  msg_role :: string
  msg_content :: string

text \<open>\<^verbatim>\<open>tokenizer(s)["input_ids"]\<close> and \<^verbatim>\<open>tokenizer.apply_chat_template(messages,
  tokenize=False, add_generation_prompt=, enable_thinking=)\<close>.\<close>

record tokenizer =
  input_ids :: "string \<Rightarrow> int list"
  apply_chat_template :: "message list \<Rightarrow> bool \<Rightarrow> bool \<Rightarrow> string"

type_synonym generation_request = "string \<times> sampling_params"

type_synonym 'm llm = "'m \<Rightarrow> string \<Rightarrow> sampling_params \<Rightarrow> request_output list \<times> 'm"

subsection \<open>Python's \<^verbatim>\<open>str.split(sep)\<close>\<close>

text \<open>
  \<open>split_from sep cur s\<close> scans \<open>s\<close> from the left; \<open>cur\<close> is the piece read since the
  last separator. A match of \<open>sep\<close> closes the piece and the scan goes on behind the
  match, so matches do not overlap. Every separator of this script is a non-empty literal
  (Python raises on an empty one; no call here passes one).
\<close>

function split_from :: "string \<Rightarrow> string \<Rightarrow> string \<Rightarrow> string list" where
  "split_from sep cur [] = [cur]"
| "split_from sep cur (c # cs) =
     (if sep \<noteq> [] \<and> take (length sep) (c # cs) = sep
      then cur # split_from sep [] (drop (length sep) (c # cs))
      else split_from sep (cur @ [c]) cs)"
  by pat_completeness auto
termination
  by (relation "measure (\<lambda>(sep, cur, s). length s)") auto

definition str_split :: "string \<Rightarrow> string \<Rightarrow> string list" where
  "str_split sep s = split_from sep [] s"

definition think_open_nl :: string where
  "think_open_nl = ''<think>'' @ [CHR 0x0A]"

definition wait_marker :: string where
  "wait_marker = [CHR 0x0A] @ ''Wait!'' @ [CHR 0x0A]"

definition close_marker :: string where
  "close_marker = [CHR 0x0A] @ ''</think>'' @ [CHR 0x0A]"

subsection \<open>The helper functions\<close>

definition system_instruction :: string where
  "system_instruction =
     ''Please reason step by step, and put your final answer within '' @ [CHR 0x5C] @ ''boxed{{}}.''"

definition build_input :: "string \<Rightarrow> tokenizer \<Rightarrow> string" where
  "build_input prompt tokenizer =
     apply_chat_template tokenizer
       [\<lparr>msg_role = ''system'', msg_content = system_instruction\<rparr>,
        \<lparr>msg_role = ''user'', msg_content = prompt\<rparr>]
       True True"

text \<open>\<^verbatim>\<open>outputs[0].prompt + outputs[0].outputs[0].text\<close>: either index raises on an empty list.\<close>

definition prompt_plus_text :: "request_output list \<Rightarrow> py_error + string" where
  "prompt_plus_text outputs =
     (case outputs of
        [] \<Rightarrow> Inl IndexError
      | ro # _ \<Rightarrow>
          (case ro_outputs ro of
             [] \<Rightarrow> Inl IndexError
           | co # _ \<Rightarrow> Inr (ro_prompt ro @ co_text co)))"

definition count_thinking_token :: "request_output list \<Rightarrow> tokenizer \<Rightarrow> py_error + (string \<times> int)" where
  "count_thinking_token outputs tokenizer =
     (case prompt_plus_text outputs of
        Inl e \<Rightarrow> Inl e
      | Inr total_token \<Rightarrow>
          (let thinking_token = last (str_split think_open_nl total_token);
               thinking_token_id = input_ids tokenizer thinking_token
           in Inr (total_token, int (length thinking_token_id))))"

definition count_token :: "string \<Rightarrow> tokenizer \<Rightarrow> int" where
  "count_token string tokenizer = int (length (input_ids tokenizer string))"

subsection \<open>The loop\<close>

text \<open>
  The local variables of the loop, together with the two effects a round has on the outside:
  the generation requests issued so far (oldest first) and the progress lines printed so
  far, each with the two numbers it shows (\<^verbatim>\<open>iteration_count\<close>, \<^verbatim>\<open>think_token_count\<close>).
  The local \<^verbatim>\<open>max_token\<close> is assigned once and never read; it is left out.
\<close>

record loop_state =
  requests :: "generation_request list"
  progress :: "(int \<times> int) list"
  input_text :: string
  think_token_count :: int
  iteration_count :: int

datatype loop_result =
    Raised py_error loop_state
  | Exited "request_output list" loop_state

datatype round_outcome =
    Continue loop_state
  | Leave loop_result

definition wait_sampling_params :: "int \<Rightarrow> int \<Rightarrow> py_error + sampling_params" where
  "wait_sampling_params thinking_budget cnt =
     SamplingParams (7 / 10) (thinking_budget - cnt) (Some ''</think>'') False"

text \<open>One execution of the body of \<^verbatim>\<open>while True\<close> (lines 45 to 67). When the constructor
  of the sampling parameters raises, the round ends there: no generation call is made.\<close>

definition loop_body :: "'m llm \<Rightarrow> tokenizer \<Rightarrow> int \<Rightarrow> 'm \<Rightarrow> loop_state \<Rightarrow> round_outcome \<times> 'm" where
  "loop_body generate tokenizer thinking_budget m s =
     (case wait_sampling_params thinking_budget (think_token_count s) of
        Inl e \<Rightarrow> (Leave (Raised e s), m)
      | Inr params \<Rightarrow>
          (let (outputs, m') = generate m (input_text s) params;
               s1 = s\<lparr>requests := requests s @ [(input_text s, params)]\<rparr>
           in case count_thinking_token outputs tokenizer of
                Inl e \<Rightarrow> (Leave (Raised e s1), m')
              | Inr (total_token, cnt) \<Rightarrow>
                  (let s2 = s1\<lparr>think_token_count := cnt,
                              progress := progress s1 @ [(iteration_count s1, cnt)]\<rparr>
                   in if cnt > thinking_budget then (Leave (Exited outputs s2), m')
                      else (Continue (s2\<lparr>input_text := total_token @ wait_marker,
                                         iteration_count := iteration_count s2 + 1\<rparr>), m'))))"

text \<open>The loop itself. It has no bound on its rounds, so it is a partial function:
  \<open>None\<close> is the run that never leaves the loop.\<close>

partial_function (option) thinking_loop ::
  "'m llm \<Rightarrow> tokenizer \<Rightarrow> int \<Rightarrow> 'm \<Rightarrow> loop_state \<Rightarrow> (loop_result \<times> 'm) option" where
  "thinking_loop generate tokenizer thinking_budget m s =
     (case loop_body generate tokenizer thinking_budget m s of
        (Continue s', m') \<Rightarrow> thinking_loop generate tokenizer thinking_budget m' s'
      | (Leave r, m') \<Rightarrow> Some (r, m'))"

text \<open>The first \<open>k\<close> rounds of the loop, for statements about runs that may never leave it:
  the outcome is \<open>Continue s\<close> while the loop is still running after \<open>k\<close> rounds.\<close>

fun rounds :: "'m llm \<Rightarrow> tokenizer \<Rightarrow> int \<Rightarrow> nat \<Rightarrow> 'm \<Rightarrow> loop_state \<Rightarrow> round_outcome \<times> 'm" where
  "rounds generate tokenizer thinking_budget 0 m s = (Continue s, m)"
| "rounds generate tokenizer thinking_budget (Suc k) m s =
     (case loop_body generate tokenizer thinking_budget m s of
        (Continue s', m') \<Rightarrow> rounds generate tokenizer thinking_budget k m' s'
      | (Leave r, m') \<Rightarrow> (Leave r, m'))"

fun state_of :: "round_outcome \<Rightarrow> loop_state" where
  "state_of (Continue s) = s"
| "state_of (Leave (Raised e s)) = s"
| "state_of (Leave (Exited outputs s)) = s"

subsection \<open>The whole function\<close>

definition initial_state :: "tokenizer \<Rightarrow> string \<Rightarrow> loop_state" where
  "initial_state tokenizer user_input =
     \<lparr>requests = [], progress = [], input_text = build_input user_input tokenizer,
      think_token_count = 0, iteration_count = 0\<rparr>"

text \<open>The value of \<^verbatim>\<open>sampling_params\<close> (lines 35 to 39), whose \<^verbatim>\<open>max_tokens\<close> passes the
  constructor's check.\<close>

definition final_sampling_params :: sampling_params where
  "final_sampling_params =
     \<lparr>temperature = 7 / 10, max_tokens = 4096, stop = None, skip_special_tokens = False\<rparr>"

text \<open>
  What a completed run leaves behind: every generation request in order, the progress
  lines, the transcript \<^verbatim>\<open>total_content\<close> (printed, and written to the file) and the four
  figures of the summary line (printed, and written to the file behind the transcript).
\<close>

record run_report =
  generate_calls :: "generation_request list"
  round_lines :: "(int \<times> int) list"
  total_content :: string
  summary_iteration_count :: int
  summary_input_token_count :: int
  summary_thinking_token_count :: int
  summary_total_token_count :: int

datatype run_outcome =
    Failed py_error "generation_request list"
  | Completed run_report

text \<open>Lines 69 to 84: the final call and the summary.\<close>

definition finalize ::
  "'m llm \<Rightarrow> tokenizer \<Rightarrow> sampling_params \<Rightarrow> int \<Rightarrow> request_output list \<Rightarrow> 'm \<Rightarrow> loop_state \<Rightarrow>
     run_outcome \<times> 'm" where
  "finalize generate tokenizer params input_token_count outputs m s =
     (case prompt_plus_text outputs of
        Inl e \<Rightarrow> (Failed e (requests s), m)
      | Inr accumulated \<Rightarrow>
          (let final_input = accumulated @ close_marker;
               (final_outputs, m') = generate m final_input params;
               calls = requests s @ [(final_input, params)]
           in case prompt_plus_text final_outputs of
                Inl e \<Rightarrow> (Failed e calls, m')
              | Inr content \<Rightarrow>
                  (let thinking_content =
                         hd (str_split ''</think>'' (last (str_split ''<think>'' content)))
                   in (Completed
                        \<lparr>generate_calls = calls,
                         round_lines = progress s,
                         total_content = content,
                         summary_iteration_count = iteration_count s,
                         summary_input_token_count = input_token_count,
                         summary_thinking_token_count = count_token thinking_content tokenizer,
                         summary_total_token_count = count_token content tokenizer\<rparr>, m'))))"

definition run_thinking_budget_sample ::
  "'m llm \<Rightarrow> 'm \<Rightarrow> tokenizer \<Rightarrow> string \<Rightarrow> int \<Rightarrow> (run_outcome \<times> 'm) option" where
  "run_thinking_budget_sample generate m tokenizer user_input thinking_budget =
     (let input_token_count = count_token (build_input user_input tokenizer) tokenizer
      in case SamplingParams (7 / 10) 4096 None False of
           Inl e \<Rightarrow> Some (Failed e [], m)
         | Inr params \<Rightarrow>
             (case thinking_loop generate tokenizer thinking_budget m
                     (initial_state tokenizer user_input) of
                None \<Rightarrow> None
              | Some (Raised e s, m') \<Rightarrow> Some (Failed e (requests s), m')
              | Some (Exited outputs s, m') \<Rightarrow>
                  Some (finalize generate tokenizer params input_token_count outputs m' s)))"

subsection \<open>Mock components\<close>

text \<open>
  A mock tokenizer: one token for each \<open>x\<close>, nothing for any other character; its chat
  template is the messages' contents followed by the opened reasoning segment.
\<close>

definition mock_tokenizer :: tokenizer where
  "mock_tokenizer =
     \<lparr>input_ids = (\<lambda>s. map (\<lambda>c. 1) (filter (\<lambda>c. c = CHR ''x'') s)),
      apply_chat_template = (\<lambda>messages add_generation_prompt enable_thinking.
        concat (map msg_content messages) @ think_open_nl)\<rparr>"

text \<open>
  A mock model that echoes its prompt and, on a call with a stop marker, emits exactly
  \<open>N\<close> tokens of reasoning and stops (whatever the cap); on a call without one (the
  final call) it emits \<open>answer\<close>.
\<close>

definition mock_generate :: "nat \<Rightarrow> string \<Rightarrow> unit llm" where
  "mock_generate N answer m text_in params =
     ([\<lparr>ro_prompt = text_in,
        ro_outputs = [\<lparr>co_text = (if stop params = None then answer
                                 else replicate N (CHR ''x''))\<rparr>]\<rparr>], m)"

text \<open>A mock model that echoes its prompt and opens a new, empty reasoning segment on
  every call.\<close>

definition reopening_generate :: "unit llm" where
  "reopening_generate m text_in params =
     ([\<lparr>ro_prompt = text_in, ro_outputs = [\<lparr>co_text = think_open_nl\<rparr>]\<rparr>], m)"

subsection \<open>What holds of the loop's variables between rounds\<close>

text \<open>
  \<open>counts s\<close> are the thinking-token counts measured so far, one for each progress line.
  \<open>outcome_inv\<close> relates them to the requests issued and to the counters, for a loop
  that is still running, one that an exception has left (the constructor's, before the
  round's call, or a failed index, after it), and one that the budget test has left.
\<close>

definition counts :: "loop_state \<Rightarrow> int list" where
  "counts s = map snd (progress s)"

text \<open>The sampling parameters of a round that starts with the count \<open>cnt\<close>, when the
  constructor accepts them.\<close>

definition round_params :: "int \<Rightarrow> int \<Rightarrow> sampling_params" where
  "round_params thinking_budget cnt =
     \<lparr>temperature = 7 / 10, max_tokens = thinking_budget - cnt, stop = Some ''</think>'',
      skip_special_tokens = False\<rparr>"

definition state_inv :: "int \<Rightarrow> loop_state \<Rightarrow> bool" where
  "state_inv B s \<longleftrightarrow>
     think_token_count s = last (0 # counts s) \<and>
     map fst (progress s) = map int [0..<length (progress s)] \<and>
     (\<forall>c\<in>set (counts s). 0 \<le> c) \<and>
     (\<forall>c\<in>set (butlast (counts s)). c \<le> B) \<and>
     (\<forall>q\<in>set (requests s). 1 \<le> max_tokens (snd q))"

fun outcome_inv :: "int \<Rightarrow> round_outcome \<Rightarrow> bool" where
  "outcome_inv B (Continue s) \<longleftrightarrow>
     state_inv B s \<and>
     map snd (requests s) = map (round_params B) (butlast (0 # counts s)) \<and>
     iteration_count s = int (length (progress s)) \<and>
     (\<forall>c\<in>set (counts s). c \<le> B)"
| "outcome_inv B (Leave (Raised e s)) \<longleftrightarrow>
     state_inv B s \<and>
     (if e = ValueError
      then map snd (requests s) = map (round_params B) (butlast (0 # counts s)) \<and>
           B \<le> think_token_count s
      else map snd (requests s) = map (round_params B) (0 # counts s)) \<and>
     iteration_count s = int (length (progress s)) \<and>
     (\<forall>c\<in>set (counts s). c \<le> B)"
| "outcome_inv B (Leave (Exited outputs s)) \<longleftrightarrow>
     state_inv B s \<and>
     map snd (requests s) = map (round_params B) (butlast (0 # counts s)) \<and>
     iteration_count s + 1 = int (length (progress s)) \<and>
     progress s \<noteq> [] \<and>
     B < last (counts s) \<and>
     (\<exists>accumulated. prompt_plus_text outputs = Inr accumulated)"

text \<open>The loop's variables once \<open>k\<close> rounds have been attempted from the start of a run:
  the state the loop is in, or the one it left with.\<close>

definition after_rounds :: "'m llm \<Rightarrow> tokenizer \<Rightarrow> int \<Rightarrow> nat \<Rightarrow> 'm \<Rightarrow> string \<Rightarrow> loop_state" where
  "after_rounds generate tokenizer thinking_budget k m user_input =
     state_of (fst (rounds generate tokenizer thinking_budget k m (initial_state tokenizer user_input)))"

text \<open>The generation requests a run has issued, whether it completed or failed.\<close>

fun calls_of :: "run_outcome \<Rightarrow> generation_request list" where
  "calls_of (Failed e calls) = calls"
| "calls_of (Completed r) = generate_calls r"

text \<open>A second mock model: the responses of \<open>mock_generate\<close>, from a model that also counts
  its calls in its state.\<close>

definition counting_generate :: "nat \<Rightarrow> string \<Rightarrow> nat llm" where
  "counting_generate N answer m text_in params =
     (fst (mock_generate N answer () text_in params), Suc m)"

section \<open>Properties\<close>

subsection \<open>Splitting\<close>

lemma split_from_nonempty: "split_from sep cur s \<noteq> []"
  by (induction sep cur s rule: split_from.induct) auto

lemma split_from_no_first:
  "a \<notin> set s \<Longrightarrow> split_from (a # rest) cur s = [cur @ s]"
proof (induction s arbitrary: cur)
  case Nil
  then show ?case by simp
next
  case (Cons c cs)
  then have "take (Suc (length rest)) (c # cs) \<noteq> a # rest" by auto
  with Cons show ?case by simp
qed

lemma split_from_last:
  assumes "a \<notin> set rest" "a \<notin> set body"
  shows "last (split_from (a # rest) cur (pre @ (a # rest) @ body)) = body"
  using assms
proof (induction pre arbitrary: cur rule: length_induct)
  case (1 pre)
  let ?sep = "a # rest"
  show ?case
  proof (cases pre)
    case Nil
    then show ?thesis using 1(3) by (simp add: split_from_no_first)
  next
    case (Cons c cs)
    show ?thesis
    proof (cases "take (length ?sep) (pre @ ?sep @ body) = ?sep")
      case True
      have len: "length ?sep \<le> length pre"
      proof (rule ccontr)
        assume "\<not> length ?sep \<le> length pre"
        then have lt: "length pre < length ?sep" by simp
        from True have "?sep ! length pre = take (length ?sep) (pre @ ?sep @ body) ! length pre"
          by (simp only:)
        also have "\<dots> = (pre @ ?sep @ body) ! length pre" using lt by (rule nth_take)
        also have "\<dots> = a" by simp
        finally have "a = ?sep ! length pre" by simp
        moreover from Cons lt have "?sep ! length pre \<in> set rest" by auto
        ultimately show False using 1(2) by simp
      qed
      then have d: "drop (length ?sep) (pre @ ?sep @ body) = drop (length ?sep) pre @ ?sep @ body"
        by simp
      have "length (drop (length ?sep) pre) < length pre" using Cons by simp
      with 1 have IH: "last (split_from ?sep [] (drop (length ?sep) pre @ ?sep @ body)) = body"
        by blast
      define t where "t = cs @ ?sep @ body"
      have pt: "pre @ ?sep @ body = c # t" by (simp add: Cons t_def)
      from True have T: "take (length ?sep) (c # t) = ?sep" by (simp only: pt)
      have "split_from ?sep cur (c # t) = cur # split_from ?sep [] (drop (length ?sep) (c # t))"
        using T by simp
      then have "split_from ?sep cur (pre @ ?sep @ body) =
          cur # split_from ?sep [] (drop (length ?sep) pre @ ?sep @ body)"
        using d by (simp only: pt)
      with IH show ?thesis
        using split_from_nonempty[of ?sep "[]" "drop (length ?sep) pre @ ?sep @ body"]
        by (metis last_ConsR)
    next
      case False
      define t where "t = cs @ ?sep @ body"
      have pt: "pre @ ?sep @ body = c # t" by (simp add: Cons t_def)
      from False have F: "take (length ?sep) (c # t) \<noteq> ?sep" unfolding pt .
      have "length cs < length pre" using Cons by simp
      with 1 have IH: "last (split_from ?sep (cur @ [c]) (cs @ ?sep @ body)) = body" by blast
      have "split_from ?sep cur (c # t) = split_from ?sep (cur @ [c]) t"
        using F by auto
      with IH show ?thesis by (simp only: pt t_def)
    qed
  qed
qed

subsection \<open>The loop and its first \<open>k\<close> rounds\<close>

lemma wait_sampling_params_Inr:
  "wait_sampling_params B c = Inr p \<longleftrightarrow> c < B \<and> p = round_params B c"
  by (auto simp: wait_sampling_params_def SamplingParams_def round_params_def)

lemma wait_sampling_params_Inl:
  "wait_sampling_params B c = Inl e \<longleftrightarrow> B \<le> c \<and> e = ValueError"
  by (auto simp: wait_sampling_params_def SamplingParams_def)

lemma loop_body_refused:
  assumes "B \<le> think_token_count s"
  shows "loop_body generate tokenizer B m s = (Leave (Raised ValueError s), m)"
proof -
  from assms have "wait_sampling_params B (think_token_count s) = Inl ValueError"
    by (simp add: wait_sampling_params_Inl)
  then show ?thesis by (simp add: loop_body_def)
qed

lemma loop_body_raised:
  assumes "think_token_count s < B"
    and "generate m (input_text s) (round_params B (think_token_count s)) = (outputs, m')"
    and "count_thinking_token outputs tokenizer = Inl e"
  shows "loop_body generate tokenizer B m s =
     (Leave (Raised e
        (s\<lparr>requests := requests s @ [(input_text s, round_params B (think_token_count s))]\<rparr>)), m')"
proof -
  from assms(1) have "wait_sampling_params B (think_token_count s) = Inr (round_params B (think_token_count s))"
    by (simp add: wait_sampling_params_Inr)
  with assms(2,3) show ?thesis by (simp add: loop_body_def Let_def)
qed

lemma loop_body_continue:
  assumes "think_token_count s < B"
    and "generate m (input_text s) (round_params B (think_token_count s)) = (outputs, m')"
    and "count_thinking_token outputs tokenizer = Inr (total_token, cnt)"
    and "cnt \<le> B"
  shows "loop_body generate tokenizer B m s =
     (Continue
        (s\<lparr>requests := requests s @ [(input_text s, round_params B (think_token_count s))],
           think_token_count := cnt,
           progress := progress s @ [(iteration_count s, cnt)],
           input_text := total_token @ wait_marker,
           iteration_count := iteration_count s + 1\<rparr>), m')"
proof -
  from assms(1) have "wait_sampling_params B (think_token_count s) = Inr (round_params B (think_token_count s))"
    by (simp add: wait_sampling_params_Inr)
  with assms(2,3,4) show ?thesis by (simp add: loop_body_def Let_def)
qed

lemma loop_body_exit:
  assumes "think_token_count s < B"
    and "generate m (input_text s) (round_params B (think_token_count s)) = (outputs, m')"
    and "count_thinking_token outputs tokenizer = Inr (total_token, cnt)"
    and "B < cnt"
  shows "loop_body generate tokenizer B m s =
     (Leave (Exited outputs
        (s\<lparr>requests := requests s @ [(input_text s, round_params B (think_token_count s))],
           think_token_count := cnt,
           progress := progress s @ [(iteration_count s, cnt)]\<rparr>)), m')"
proof -
  from assms(1) have "wait_sampling_params B (think_token_count s) = Inr (round_params B (think_token_count s))"
    by (simp add: wait_sampling_params_Inr)
  with assms(2,3,4) show ?thesis by (simp add: loop_body_def Let_def)
qed

lemma loop_body_cases:
  obtains (refused) "B \<le> think_token_count s"
      "loop_body generate tokenizer B m s = (Leave (Raised ValueError s), m)"
  | (raised) e outputs m' where
      "think_token_count s < B"
      "generate m (input_text s) (round_params B (think_token_count s)) = (outputs, m')"
      "count_thinking_token outputs tokenizer = Inl e"
      "loop_body generate tokenizer B m s =
         (Leave (Raised e
            (s\<lparr>requests := requests s @ [(input_text s, round_params B (think_token_count s))]\<rparr>)), m')"
  | (exited) outputs m' total_token cnt where
      "think_token_count s < B"
      "generate m (input_text s) (round_params B (think_token_count s)) = (outputs, m')"
      "count_thinking_token outputs tokenizer = Inr (total_token, cnt)"
      "B < cnt"
      "loop_body generate tokenizer B m s =
         (Leave (Exited outputs
            (s\<lparr>requests := requests s @ [(input_text s, round_params B (think_token_count s))],
               think_token_count := cnt,
               progress := progress s @ [(iteration_count s, cnt)]\<rparr>)), m')"
  | (continue) outputs m' total_token cnt where
      "think_token_count s < B"
      "generate m (input_text s) (round_params B (think_token_count s)) = (outputs, m')"
      "count_thinking_token outputs tokenizer = Inr (total_token, cnt)"
      "cnt \<le> B"
      "loop_body generate tokenizer B m s =
         (Continue
            (s\<lparr>requests := requests s @ [(input_text s, round_params B (think_token_count s))],
               think_token_count := cnt,
               progress := progress s @ [(iteration_count s, cnt)],
               input_text := total_token @ wait_marker,
               iteration_count := iteration_count s + 1\<rparr>), m')"
proof (cases "B \<le> think_token_count s")
  case True
  then show thesis by (rule refused) (rule loop_body_refused[OF True])
next
  case False
  then have lt: "think_token_count s < B" by simp
  obtain outputs m' where
    g: "generate m (input_text s) (round_params B (think_token_count s)) = (outputs, m')"
    by (cases "generate m (input_text s) (round_params B (think_token_count s))")
  show thesis
  proof (cases "count_thinking_token outputs tokenizer")
    case (Inl e)
    show thesis
      by (rule raised[OF lt g Inl])
        (rule loop_body_raised[where generate = generate and m = m and s = s and B = B, OF lt g Inl])
  next
    case (Inr p)
    obtain total_token cnt where p: "p = (total_token, cnt)" by (cases p)
    from Inr p have c: "count_thinking_token outputs tokenizer = Inr (total_token, cnt)" by simp
    show thesis
    proof (cases "B < cnt")
      case True
      show thesis
        by (rule exited[OF lt g c True])
          (rule loop_body_exit[where generate = generate and m = m and s = s and B = B, OF lt g c True])
    next
      case False
      then have le: "cnt \<le> B" by simp
      show thesis
        by (rule continue[OF lt g c le])
          (rule loop_body_continue[where generate = generate and m = m and s = s and B = B, OF lt g c le])
    qed
  qed
qed

lemma rounds_Leave_thinking_loop:
  "rounds generate tokenizer B k m s = (Leave r, m') \<Longrightarrow>
   thinking_loop generate tokenizer B m s = Some (r, m')"
proof (induction k arbitrary: m s)
  case 0
  then show ?case by simp
next
  case (Suc k)
  show ?case
  proof (cases "loop_body generate tokenizer B m s")
    case (Pair out m1)
    show ?thesis
    proof (cases out)
      case (Continue s1)
      with Pair Suc.prems have "rounds generate tokenizer B k m1 s1 = (Leave r, m')" by simp
      from Suc.IH[OF this] Pair Continue show ?thesis
        by (subst thinking_loop.simps) simp
    next
      case (Leave r1)
      with Pair Suc.prems show ?thesis
        by (subst thinking_loop.simps) simp
    qed
  qed
qed

lemma thinking_loop_rounds:
  assumes h: "thinking_loop generate tokenizer B m s = Some rm"
  shows "\<exists>k. rounds generate tokenizer B (Suc k) m s = (Leave (fst rm), snd rm)"
proof (rule thinking_loop.raw_induct
    [where P = "\<lambda>generate tokenizer B m s rm.
                  \<exists>k. rounds generate tokenizer B (Suc k) m s = (Leave (fst rm), snd rm)",
     OF _ h], goal_cases)
  case (1 f generate tokenizer B m s rm)
  show ?case
  proof (cases "loop_body generate tokenizer B m s")
    case (Pair out m1)
    show ?thesis
    proof (cases out)
      case (Continue s1)
      with Pair 1(2) have "f generate tokenizer B m1 s1 = Some rm" by simp
      from 1(1)[OF this] obtain k where
        "rounds generate tokenizer B (Suc k) m1 s1 = (Leave (fst rm), snd rm)" by blast
      with Pair Continue have "rounds generate tokenizer B (Suc (Suc k)) m s = (Leave (fst rm), snd rm)"
        by simp
      then show ?thesis by blast
    next
      case (Leave r1)
      with Pair 1(2) have "rounds generate tokenizer B (Suc 0) m s = (Leave (fst rm), snd rm)"
        by auto
      then show ?thesis by blast
    qed
  qed
qed

lemma thinking_loop_Some_iff:
  "thinking_loop generate tokenizer B m s = Some (r, m') \<longleftrightarrow>
   (\<exists>k. rounds generate tokenizer B k m s = (Leave r, m'))"
  using thinking_loop_rounds[of generate tokenizer B m s "(r, m')"]
    rounds_Leave_thinking_loop[of generate tokenizer B _ m s r m']
  by (auto simp del: rounds.simps)

lemma thinking_loop_None_iff:
  "thinking_loop generate tokenizer B m s = None \<longleftrightarrow>
   (\<forall>k. \<exists>s' m'. rounds generate tokenizer B k m s = (Continue s', m'))"
proof
  assume n: "thinking_loop generate tokenizer B m s = None"
  show "\<forall>k. \<exists>s' m'. rounds generate tokenizer B k m s = (Continue s', m')"
  proof
    fix k
    obtain out m' where e: "rounds generate tokenizer B k m s = (out, m')"
      by (cases "rounds generate tokenizer B k m s")
    show "\<exists>s' m'. rounds generate tokenizer B k m s = (Continue s', m')"
    proof (cases out)
      case (Continue s')
      with e show ?thesis by blast
    next
      case (Leave r)
      with e n rounds_Leave_thinking_loop[of generate tokenizer B k m s r m'] show ?thesis by simp
    qed
  qed
next
  assume a: "\<forall>k. \<exists>s' m'. rounds generate tokenizer B k m s = (Continue s', m')"
  show "thinking_loop generate tokenizer B m s = None"
  proof (cases "thinking_loop generate tokenizer B m s")
    case None
    then show ?thesis .
  next
    case (Some rm)
    from thinking_loop_rounds[OF this] a show ?thesis by (metis Pair_inject round_outcome.distinct(1))
  qed
qed

lemma rounds_Suc_end:
  "rounds generate tokenizer B (Suc k) m s =
     (case rounds generate tokenizer B k m s of
        (Continue s', m') \<Rightarrow> loop_body generate tokenizer B m' s'
      | (Leave r, m') \<Rightarrow> (Leave r, m'))"
proof (induction k arbitrary: m s)
  case 0
  show ?case by (simp split: prod.splits round_outcome.splits)
next
  case (Suc k)
  obtain out m1 where b: "loop_body generate tokenizer B m s = (out, m1)"
    by (cases "loop_body generate tokenizer B m s")
  show ?case
  proof (cases out)
    case (Continue s1)
    have "rounds generate tokenizer B (Suc (Suc k)) m s = rounds generate tokenizer B (Suc k) m1 s1"
      using b Continue by simp
    also have "\<dots> = (case rounds generate tokenizer B k m1 s1 of
        (Continue s', m') \<Rightarrow> loop_body generate tokenizer B m' s'
      | (Leave r, m') \<Rightarrow> (Leave r, m'))" by (rule Suc)
    also have "rounds generate tokenizer B k m1 s1 = rounds generate tokenizer B (Suc k) m s"
      using b Continue by simp
    finally show ?thesis .
  next
    case (Leave r)
    with b show ?thesis by simp
  qed
qed

subsection \<open>The invariant\<close>

lemma count_thinking_token_Inr:
  "count_thinking_token outputs tokenizer = Inr (total_token, cnt) \<Longrightarrow>
   prompt_plus_text outputs = Inr total_token \<and> 0 \<le> cnt \<and>
   cnt = count_token (last (str_split think_open_nl total_token)) tokenizer"
  by (auto simp: count_thinking_token_def count_token_def Let_def split: sum.splits)

lemma outcome_inv_initial: "outcome_inv B (Continue (initial_state tokenizer user_input))"
  by (simp add: initial_state_def counts_def state_inv_def)

lemma caps_snoc:
  assumes "map snd (requests s) = map (round_params B) (butlast (0 # counts s))"
    and "think_token_count s = last (0 # counts s)"
  shows "map snd (requests s @ [(input_text s, round_params B (think_token_count s))]) =
      map (round_params B) (0 # counts s)"
proof -
  have "map (round_params B) (0 # counts s) =
      map (round_params B) (butlast (0 # counts s) @ [last (0 # counts s)])"
    by (simp only: append_butlast_last_id[OF list.distinct(2)])
  then show ?thesis using assms by simp
qed

lemma loop_body_inv:
  assumes inv: "outcome_inv B (Continue s)"
  shows "outcome_inv B (fst (loop_body generate tokenizer B m s))"
proof -
  from inv have caps: "map snd (requests s) = map (round_params B) (butlast (0 # counts s))"
    and think: "think_token_count s = last (0 # counts s)"
    and idx: "map fst (progress s) = map int [0..<length (progress s)]"
    and iter: "iteration_count s = int (length (progress s))"
    and nn: "\<forall>c\<in>set (counts s). 0 \<le> c"
    and bnd: "\<forall>c\<in>set (counts s). c \<le> B"
    and issued: "\<forall>q\<in>set (requests s). 1 \<le> max_tokens (snd q)"
    by (simp_all add: state_inv_def)
  note caps' = caps_snoc[OF caps think]
  from bnd have bl: "\<forall>c\<in>set (butlast (counts s)). c \<le> B" by (auto dest: in_set_butlastD)
  show ?thesis
  proof (cases rule: loop_body_cases[of B s generate tokenizer m])
    case refused
    with inv show ?thesis by simp
  next
    case (raised e outputs m')
    from raised(1) issued
    have issued': "\<forall>q\<in>set (requests s @ [(input_text s, round_params B (think_token_count s))]).
        1 \<le> max_tokens (snd q)"
      by (auto simp: round_params_def)
    from raised(3) have "e \<noteq> ValueError"
      by (auto simp: count_thinking_token_def prompt_plus_text_def Let_def
          split: sum.splits list.splits)
    then show ?thesis
      unfolding raised(4) fst_conv outcome_inv.simps
      using caps' think idx iter nn bnd bl issued'
      by (simp add: counts_def state_inv_def)
  next
    case (exited outputs m' total_token cnt)
    from count_thinking_token_Inr[OF exited(3)] have c0: "0 \<le> cnt"
      and acc: "prompt_plus_text outputs = Inr total_token" by simp_all
    from exited(1) issued
    have issued': "\<forall>q\<in>set (requests s @ [(input_text s, round_params B (think_token_count s))]).
        1 \<le> max_tokens (snd q)"
      by (auto simp: round_params_def)
    show ?thesis
      unfolding exited(5) fst_conv outcome_inv.simps
      using caps' idx iter nn bnd c0 acc exited(4) issued'
      by (simp add: counts_def state_inv_def)
  next
    case (continue outputs m' total_token cnt)
    from count_thinking_token_Inr[OF continue(3)] have c0: "0 \<le> cnt" by simp
    from continue(1) issued
    have issued': "\<forall>q\<in>set (requests s @ [(input_text s, round_params B (think_token_count s))]).
        1 \<le> max_tokens (snd q)"
      by (auto simp: round_params_def)
    show ?thesis
      unfolding continue(5) fst_conv outcome_inv.simps
      using caps' idx iter nn bnd c0 continue(4) issued'
      by (simp add: counts_def state_inv_def)
  qed
qed

lemma rounds_inv:
  "outcome_inv B (Continue s) \<Longrightarrow> outcome_inv B (fst (rounds generate tokenizer B k m s))"
proof (induction k arbitrary: m s)
  case 0
  then show ?case by simp
next
  case (Suc k)
  obtain out m1 where b: "loop_body generate tokenizer B m s = (out, m1)"
    by (cases "loop_body generate tokenizer B m s")
  from loop_body_inv[OF Suc.prems, of generate tokenizer m] b have o: "outcome_inv B out" by simp
  show ?case
  proof (cases out)
    case (Continue s1)
    with b o Suc.IH[of s1 m1] show ?thesis by simp
  next
    case (Leave r)
    with b o show ?thesis by simp
  qed
qed

lemma thinking_loop_inv:
  assumes "thinking_loop generate tokenizer B m (initial_state tokenizer user_input) = Some (r, m')"
  shows "outcome_inv B (Leave r)"
proof -
  from thinking_loop_rounds[OF assms] obtain k where
    "rounds generate tokenizer B (Suc k) m (initial_state tokenizer user_input) = (Leave r, m')"
    by auto
  with rounds_inv[OF outcome_inv_initial, of B generate tokenizer "Suc k" m tokenizer user_input]
  show ?thesis by (simp del: rounds.simps)
qed

subsection \<open>A model that adds the same count every round\<close>

lemma below_quotient:
  fixes N B :: int
  assumes "0 < N" "0 \<le> B" "Suc k \<le> nat (B div N)"
  shows "int (Suc k) * N \<le> B"
proof -
  from assms(2,3) have "int (Suc k) \<le> B div N" by linarith
  with assms(1) have "int (Suc k) * N \<le> (B div N) * N" by (simp add: mult_right_mono)
  moreover have "B div N * N + B mod N = B" by simp
  moreover have "0 \<le> B mod N" using assms(1) by simp
  ultimately show ?thesis by linarith
qed

lemma above_quotient:
  fixes N B :: int
  assumes "0 < N" "0 \<le> B"
  shows "B < int (Suc (nat (B div N))) * N"
proof -
  from assms have "0 \<le> B div N" by (simp add: pos_imp_zdiv_nonneg_iff)
  then have "int (Suc (nat (B div N))) * N = B div N * N + N" by (simp add: algebra_simps)
  moreover have "B div N * N + B mod N = B" by simp
  moreover have "B mod N < N" using assms(1) by simp
  ultimately show ?thesis by linarith
qed

lemma at_quotient:
  fixes N B :: int
  assumes "0 < N" "0 \<le> B"
  shows "int (nat (B div N)) * N \<le> B"
    and "N dvd B \<Longrightarrow> int (nat (B div N)) * N = B"
    and "\<not> N dvd B \<Longrightarrow> int (nat (B div N)) * N < B"
proof -
  from assms have q: "int (nat (B div N)) = B div N" by (simp add: pos_imp_zdiv_nonneg_iff)
  have e: "B div N * N + B mod N = B" by simp
  have m: "0 \<le> B mod N" using assms(1) by simp
  from e m have "B div N * N \<le> B" by linarith
  then show "int (nat (B div N)) * N \<le> B" by (simp only: q)
  show "int (nat (B div N)) * N = B" if "N dvd B"
  proof -
    from that have "B div N * N = B" by simp
    then show ?thesis by (simp only: q)
  qed
  show "int (nat (B div N)) * N < B" if "\<not> N dvd B"
  proof -
    from that have "B mod N \<noteq> 0" by (simp add: dvd_eq_mod_eq_0)
    with m have "0 < B mod N" by simp
    with e have "B div N * N < B" by linarith
    then show ?thesis by (simp only: q)
  qed
qed

lemma fixed_increment_running:
  fixes N B :: int
  assumes N: "0 < N" and B: "0 \<le> B"
    and hyp: "\<And>k s m. rounds generate tokenizer B k m0 (initial_state tokenizer user_input) = (Continue s, m) \<Longrightarrow>
        think_token_count s < B \<Longrightarrow>
        \<exists>total_token. count_thinking_token
           (fst (generate m (input_text s) (round_params B (think_token_count s)))) tokenizer
           = Inr (total_token, int (Suc k) * N)"
  shows "k \<le> nat (B div N) \<Longrightarrow>
     \<exists>s m. rounds generate tokenizer B k m0 (initial_state tokenizer user_input) = (Continue s, m) \<and>
       length (requests s) = k \<and> counts s = map (\<lambda>i. int (Suc i) * N) [0..<k] \<and>
       think_token_count s = int k * N"
proof (induction k)
  case 0
  show ?case by (simp add: initial_state_def counts_def)
next
  case (Suc k)
  then obtain s m where r: "rounds generate tokenizer B k m0 (initial_state tokenizer user_input) = (Continue s, m)"
    and l: "length (requests s) = k" and c: "counts s = map (\<lambda>i. int (Suc i) * N) [0..<k]"
    and t: "think_token_count s = int k * N"
    by auto
  have le: "int (Suc k) * N \<le> B" using N B Suc.prems by (rule below_quotient)
  have "int k * N < int (Suc k) * N" using N by (simp add: algebra_simps)
  with le t have lt: "think_token_count s < B" by simp
  obtain outputs m' where g: "generate m (input_text s) (round_params B (think_token_count s)) = (outputs, m')"
    by (cases "generate m (input_text s) (round_params B (think_token_count s))")
  from hyp[OF r lt] g obtain total_token where
    ct: "count_thinking_token outputs tokenizer = Inr (total_token, int (Suc k) * N)" by auto
  note lb = loop_body_continue[where generate = generate and m = m and s = s and B = B, OF lt g ct le]
  have "rounds generate tokenizer B (Suc k) m0 (initial_state tokenizer user_input) =
      loop_body generate tokenizer B m s"
    by (simp only: rounds_Suc_end r prod.case round_outcome.case)
  with lb l c show ?case by (simp add: counts_def del: rounds.simps)
qed

lemma fixed_increment_exit:
  fixes N B :: int
  assumes N: "0 < N" and B: "0 \<le> B" and nd: "\<not> N dvd B"
    and hyp: "\<And>k s m. rounds generate tokenizer B k m0 (initial_state tokenizer user_input) = (Continue s, m) \<Longrightarrow>
        think_token_count s < B \<Longrightarrow>
        \<exists>total_token. count_thinking_token
           (fst (generate m (input_text s) (round_params B (think_token_count s)))) tokenizer
           = Inr (total_token, int (Suc k) * N)"
  shows "\<exists>outputs s m. thinking_loop generate tokenizer B m0 (initial_state tokenizer user_input) =
       Some (Exited outputs s, m) \<and>
       length (requests s) = Suc (nat (B div N)) \<and>
       counts s = map (\<lambda>i. int (Suc i) * N) [0..<Suc (nat (B div N))]"
proof -
  let ?K = "nat (B div N)"
  have "\<exists>s m. rounds generate tokenizer B ?K m0 (initial_state tokenizer user_input) = (Continue s, m) \<and>
       length (requests s) = ?K \<and> counts s = map (\<lambda>i. int (Suc i) * N) [0..<?K] \<and>
       think_token_count s = int ?K * N"
  proof (rule fixed_increment_running[OF N B])
    show "\<And>k s m. rounds generate tokenizer B k m0 (initial_state tokenizer user_input) = (Continue s, m) \<Longrightarrow>
        think_token_count s < B \<Longrightarrow>
        \<exists>total_token. count_thinking_token
           (fst (generate m (input_text s) (round_params B (think_token_count s)))) tokenizer
           = Inr (total_token, int (Suc k) * N)" by (rule hyp)
    show "?K \<le> nat (B div N)" by simp
  qed
  then obtain s m where
    r: "rounds generate tokenizer B ?K m0 (initial_state tokenizer user_input) = (Continue s, m)"
    and l: "length (requests s) = ?K" and c: "counts s = map (\<lambda>i. int (Suc i) * N) [0..<?K]"
    and t: "think_token_count s = int ?K * N"
    by auto
  from at_quotient(3)[OF N B nd] t have lt: "think_token_count s < B" by simp
  obtain outputs m' where g: "generate m (input_text s) (round_params B (think_token_count s)) = (outputs, m')"
    by (cases "generate m (input_text s) (round_params B (think_token_count s))")
  from hyp[OF r lt] g obtain total_token where
    ct: "count_thinking_token outputs tokenizer = Inr (total_token, int (Suc ?K) * N)" by auto
  have gt: "B < int (Suc ?K) * N" using N B by (rule above_quotient)
  note lb = loop_body_exit[where generate = generate and m = m and s = s and B = B, OF lt g ct gt]
  let ?s' = "s\<lparr>requests := requests s @ [(input_text s, round_params B (think_token_count s))],
           think_token_count := int (Suc ?K) * N,
           progress := progress s @ [(iteration_count s, int (Suc ?K) * N)]\<rparr>"
  have "rounds generate tokenizer B (Suc ?K) m0 (initial_state tokenizer user_input) =
      loop_body generate tokenizer B m s"
    by (simp only: rounds_Suc_end r prod.case round_outcome.case)
  with lb have "thinking_loop generate tokenizer B m0 (initial_state tokenizer user_input) =
      Some (Exited outputs ?s', m')"
    by (intro rounds_Leave_thinking_loop[of _ _ _ "Suc ?K"]) (simp only:)
  moreover have "length (requests ?s') = Suc ?K" using l by simp
  moreover have "counts ?s' = map (\<lambda>i. int (Suc i) * N) [0..<Suc ?K]"
    using c by (simp add: counts_def)
  ultimately show ?thesis by blast
qed

lemma fixed_increment_refused:
  fixes N B :: int
  assumes N: "0 < N" and B: "0 \<le> B" and d: "N dvd B"
    and hyp: "\<And>k s m. rounds generate tokenizer B k m0 (initial_state tokenizer user_input) = (Continue s, m) \<Longrightarrow>
        think_token_count s < B \<Longrightarrow>
        \<exists>total_token. count_thinking_token
           (fst (generate m (input_text s) (round_params B (think_token_count s)))) tokenizer
           = Inr (total_token, int (Suc k) * N)"
  shows "\<exists>s m. thinking_loop generate tokenizer B m0 (initial_state tokenizer user_input) =
       Some (Raised ValueError s, m) \<and>
       length (requests s) = nat (B div N) \<and>
       counts s = map (\<lambda>i. int (Suc i) * N) [0..<nat (B div N)] \<and>
       think_token_count s = B"
proof -
  let ?K = "nat (B div N)"
  have "\<exists>s m. rounds generate tokenizer B ?K m0 (initial_state tokenizer user_input) = (Continue s, m) \<and>
       length (requests s) = ?K \<and> counts s = map (\<lambda>i. int (Suc i) * N) [0..<?K] \<and>
       think_token_count s = int ?K * N"
  proof (rule fixed_increment_running[OF N B])
    show "\<And>k s m. rounds generate tokenizer B k m0 (initial_state tokenizer user_input) = (Continue s, m) \<Longrightarrow>
        think_token_count s < B \<Longrightarrow>
        \<exists>total_token. count_thinking_token
           (fst (generate m (input_text s) (round_params B (think_token_count s)))) tokenizer
           = Inr (total_token, int (Suc k) * N)" by (rule hyp)
    show "?K \<le> nat (B div N)" by simp
  qed
  then obtain s m where
    r: "rounds generate tokenizer B ?K m0 (initial_state tokenizer user_input) = (Continue s, m)"
    and l: "length (requests s) = ?K" and c: "counts s = map (\<lambda>i. int (Suc i) * N) [0..<?K]"
    and t: "think_token_count s = int ?K * N"
    by auto
  from at_quotient(2)[OF N B d] t have eq: "think_token_count s = B" by simp
  then have "B \<le> think_token_count s" by simp
  note lb = loop_body_refused[OF this, of generate tokenizer m]
  have "rounds generate tokenizer B (Suc ?K) m0 (initial_state tokenizer user_input) =
      loop_body generate tokenizer B m s"
    by (simp only: rounds_Suc_end r prod.case round_outcome.case)
  with lb have "thinking_loop generate tokenizer B m0 (initial_state tokenizer user_input) =
      Some (Raised ValueError s, m)"
    by (intro rounds_Leave_thinking_loop[of _ _ _ "Suc ?K"]) (simp only:)
  with l c eq show ?thesis by blast
qed

subsection \<open>Arithmetic of the ceiling\<close>


subsection \<open>The mock model\<close>

lemma last_split_think_open_nl:
  "CHR ''<'' \<notin> set body \<Longrightarrow> last (str_split think_open_nl (pre @ think_open_nl @ body)) = body"
  unfolding str_split_def think_open_nl_def
  using split_from_last[of "CHR ''<''" "''think>'' @ [CHR 0x0A]" body "[]" pre] by simp

lemma mock_build_input:
  "build_input user_input mock_tokenizer = (system_instruction @ user_input) @ think_open_nl"
  by (simp add: build_input_def mock_tokenizer_def)

lemma mock_generate_pair:
  "mock_generate N answer m text_in params = (fst (mock_generate N answer m text_in params), m)"
  by (simp add: mock_generate_def)

lemma mock_round_count:
  assumes "CHR ''<'' \<notin> set body"
  shows "count_thinking_token
      (fst (mock_generate N answer m (pre @ think_open_nl @ body) (round_params B c)))
      mock_tokenizer =
    Inr (pre @ think_open_nl @ body @ replicate N (CHR ''x''),
         int (length (filter (\<lambda>c. c = CHR ''x'') body) + N))"
proof -
  have "CHR ''<'' \<notin> set (body @ replicate N (CHR ''x''))" using assms by auto
  from last_split_think_open_nl[OF this, of pre]
  show ?thesis
    by (simp add: count_thinking_token_def prompt_plus_text_def mock_generate_def
        round_params_def mock_tokenizer_def Let_def)
qed

lemma mock_running_input:
  "rounds (mock_generate N answer) mock_tokenizer B k m0 (initial_state mock_tokenizer user_input) =
     (Continue s, m) \<Longrightarrow>
   \<exists>body. input_text s = (system_instruction @ user_input) @ think_open_nl @ body \<and>
          CHR ''<'' \<notin> set body \<and> length (filter (\<lambda>c. c = CHR ''x'') body) = k * N"
proof (induction k arbitrary: s m)
  case 0
  then have "input_text s = (system_instruction @ user_input) @ think_open_nl @ []"
    by (auto simp: initial_state_def mock_build_input)
  then show ?case by (intro exI[of _ "[]"]) simp
next
  case (Suc k)
  let ?g = "mock_generate N answer"
  obtain out m1 where r: "rounds ?g mock_tokenizer B k m0 (initial_state mock_tokenizer user_input) = (out, m1)"
    by (cases "rounds ?g mock_tokenizer B k m0 (initial_state mock_tokenizer user_input)")
  show ?case
  proof (cases out)
    case (Leave r1)
    with r Suc.prems show ?thesis by (simp only: rounds_Suc_end prod.case round_outcome.case) simp
  next
    case (Continue s1)
    with r Suc.IH[of s1 m1] obtain body where
      i: "input_text s1 = (system_instruction @ user_input) @ think_open_nl @ body"
      and b: "CHR ''<'' \<notin> set body" and n: "length (filter (\<lambda>c. c = CHR ''x'') body) = k * N"
      by auto
    from r Continue Suc.prems have lb: "loop_body ?g mock_tokenizer B m1 s1 = (Continue s, m)"
      by (simp only: rounds_Suc_end prod.case round_outcome.case)
    note mc = mock_round_count[OF b, of N answer m1 "system_instruction @ user_input" B "think_token_count s1"]
    from lb show ?thesis
    proof (cases rule: loop_body_cases[of B s1 ?g mock_tokenizer m1])
      case refused
      with lb show ?thesis by simp
    next
      case (raised e outputs m')
      with lb show ?thesis by simp
    next
      case (exited outputs m' total_token cnt)
      with lb show ?thesis by simp
    next
      case (continue outputs m' total_token cnt)
      from continue(2,3) mc i have tt: "total_token = (system_instruction @ user_input) @ think_open_nl @ body @ replicate N (CHR ''x'')"
        by simp
      from continue(5) lb have "input_text s = total_token @ wait_marker" by auto
      with tt have "input_text s = (system_instruction @ user_input) @ think_open_nl @
          (body @ replicate N (CHR ''x'') @ wait_marker)" by simp
      moreover have "CHR ''<'' \<notin> set (body @ replicate N (CHR ''x'') @ wait_marker)"
        using b by (auto simp: wait_marker_def)
      moreover have "length (filter (\<lambda>c. c = CHR ''x'') (body @ replicate N (CHR ''x'') @ wait_marker)) = Suc k * N"
        using n by (simp add: wait_marker_def)
      ultimately show ?thesis by blast
    qed
  qed
qed

lemma mock_measure:
  assumes "rounds (mock_generate N answer) mock_tokenizer B k m0 (initial_state mock_tokenizer user_input) =
     (Continue s, m)"
  shows "\<exists>total_token. count_thinking_token
      (fst (mock_generate N answer m (input_text s) (round_params B (think_token_count s))))
      mock_tokenizer = Inr (total_token, int (Suc k) * int N)"
proof -
  from mock_running_input[OF assms] obtain body where
    i: "input_text s = (system_instruction @ user_input) @ think_open_nl @ body"
    and b: "CHR ''<'' \<notin> set body" and n: "length (filter (\<lambda>c. c = CHR ''x'') body) = k * N"
    by auto
  from mock_round_count[OF b, of N answer m "system_instruction @ user_input" B "think_token_count s"] i n
  show ?thesis by (simp add: algebra_simps)
qed

lemma mock_loop_exit:
  assumes "0 < N" "0 \<le> B" "\<not> int N dvd B"
  shows "\<exists>outputs s m. thinking_loop (mock_generate N answer) mock_tokenizer B m0
        (initial_state mock_tokenizer user_input) = Some (Exited outputs s, m) \<and>
       length (requests s) = Suc (nat (B div int N)) \<and>
       counts s = map (\<lambda>i. int (Suc i) * int N) [0..<Suc (nat (B div int N))]"
proof (rule fixed_increment_exit)
  show "0 < int N" using assms(1) by simp
  show "0 \<le> B" by (rule assms(2))
  show "\<not> int N dvd B" by (rule assms(3))
  show "\<And>k s m. rounds (mock_generate N answer) mock_tokenizer B k m0
          (initial_state mock_tokenizer user_input) = (Continue s, m) \<Longrightarrow>
      think_token_count s < B \<Longrightarrow>
      \<exists>total_token. count_thinking_token
        (fst (mock_generate N answer m (input_text s) (round_params B (think_token_count s))))
        mock_tokenizer = Inr (total_token, int (Suc k) * int N)"
    by (rule mock_measure)
qed

lemma mock_loop_refused:
  assumes "0 < N" "0 \<le> B" "int N dvd B"
  shows "\<exists>s m. thinking_loop (mock_generate N answer) mock_tokenizer B m0
        (initial_state mock_tokenizer user_input) = Some (Raised ValueError s, m) \<and>
       length (requests s) = nat (B div int N) \<and>
       counts s = map (\<lambda>i. int (Suc i) * int N) [0..<nat (B div int N)] \<and>
       think_token_count s = B"
proof (rule fixed_increment_refused)
  show "0 < int N" using assms(1) by simp
  show "0 \<le> B" by (rule assms(2))
  show "int N dvd B" by (rule assms(3))
  show "\<And>k s m. rounds (mock_generate N answer) mock_tokenizer B k m0
          (initial_state mock_tokenizer user_input) = (Continue s, m) \<Longrightarrow>
      think_token_count s < B \<Longrightarrow>
      \<exists>total_token. count_thinking_token
        (fst (mock_generate N answer m (input_text s) (round_params B (think_token_count s))))
        mock_tokenizer = Inr (total_token, int (Suc k) * int N)"
    by (rule mock_measure)
qed

subsection \<open>Every request of the loop\<close>

lemma after_rounds_inv:
  "\<exists>out. outcome_inv B out \<and> after_rounds generate tokenizer B k m user_input = state_of out"
  unfolding after_rounds_def
  using rounds_inv[OF outcome_inv_initial, of B generate tokenizer k m tokenizer user_input]
  by blast

lemma outcome_inv_state: "outcome_inv B out \<Longrightarrow> state_inv B (state_of out)"
  by (cases out rule: state_of.cases) simp_all

lemma outcome_inv_params:
  assumes "outcome_inv B out"
  shows "map snd (requests (state_of out)) =
     map (round_params B)
       (take (length (requests (state_of out))) (0 # counts (state_of out)))"
proof -
  have bl: "\<And>s. map snd (requests s) = map (round_params B) (butlast (0 # counts s)) \<Longrightarrow>
      map snd (requests s) = map (round_params B) (take (length (requests s)) (0 # counts s))"
  proof -
    fix s
    assume a: "map snd (requests s) = map (round_params B) (butlast (0 # counts s))"
    then have "length (map snd (requests s)) = length (map (round_params B) (butlast (0 # counts s)))"
      by (simp only:)
    then have "length (requests s) = length (counts s)" by simp
    then have "take (length (requests s)) (0 # counts s) = butlast (0 # counts s)"
      by (simp add: butlast_conv_take)
    with a show "map snd (requests s) = map (round_params B) (take (length (requests s)) (0 # counts s))"
      by simp
  qed
  have whole: "\<And>s. map snd (requests s) = map (round_params B) (0 # counts s) \<Longrightarrow>
      map snd (requests s) = map (round_params B) (take (length (requests s)) (0 # counts s))"
  proof -
    fix s
    assume a: "map snd (requests s) = map (round_params B) (0 # counts s)"
    then have "length (map snd (requests s)) = length (map (round_params B) (0 # counts s))"
      by (simp only:)
    then have "length (requests s) = Suc (length (counts s))" by simp
    with a show "map snd (requests s) = map (round_params B) (take (length (requests s)) (0 # counts s))"
      by simp
  qed
  show ?thesis
  proof (cases out)
    case (Continue s)
    with assms show ?thesis using bl[of s] by simp
  next
    case (Leave r)
    show ?thesis
    proof (cases r)
      case (Raised e s)
      show ?thesis
      proof (cases "e = ValueError")
        case True
        with Raised Leave assms show ?thesis using bl[of s] by simp
      next
        case False
        with Raised Leave assms show ?thesis using whole[of s] by simp
      qed
    next
      case (Exited outputs s)
      with Leave assms show ?thesis using bl[of s] by simp
    qed
  qed
qed

lemma issued_caps:
  "list_all (\<lambda>q. 1 \<le> max_tokens (snd q)) (requests (after_rounds generate tokenizer B k m user_input))"
proof -
  from after_rounds_inv[of B generate tokenizer k m user_input] obtain out where
    "outcome_inv B out" "after_rounds generate tokenizer B k m user_input = state_of out" by blast
  with outcome_inv_state[of B out] show ?thesis by (simp add: state_inv_def list_all_iff)
qed

subsection \<open>The model that reopens its reasoning\<close>

lemma reopening_continue:
  assumes "input_ids tokenizer [] = []" "0 < B" "think_token_count s = 0"
  shows "\<exists>s'. loop_body reopening_generate tokenizer B m s = (Continue s', m) \<and> think_token_count s' = 0"
proof -
  let ?outputs = "[\<lparr>ro_prompt = input_text s, ro_outputs = [\<lparr>co_text = think_open_nl\<rparr>]\<rparr>]"
  have g: "reopening_generate m (input_text s) (round_params B (think_token_count s)) = (?outputs, m)"
    by (simp add: reopening_generate_def)
  have "last (str_split think_open_nl (input_text s @ think_open_nl @ [])) = []"
    by (rule last_split_think_open_nl) simp
  then have c: "count_thinking_token ?outputs tokenizer = Inr (input_text s @ think_open_nl, 0)"
    using assms(1) by (simp add: count_thinking_token_def prompt_plus_text_def Let_def)
  from assms(2,3) have lt: "think_token_count s < B" and le: "(0::int) \<le> B" by simp_all
  from loop_body_continue[where generate = reopening_generate and m = m and s = s and B = B, OF lt g c le]
  show ?thesis by simp
qed

lemma reopening_running:
  assumes "input_ids tokenizer [] = []" "0 < B" "think_token_count s = 0"
  shows "\<exists>s' m'. rounds reopening_generate tokenizer B k m s = (Continue s', m') \<and> think_token_count s' = 0"
proof (induction k)
  case 0
  show ?case using assms(3) by simp
next
  case (Suc k)
  then obtain s1 m1 where r: "rounds reopening_generate tokenizer B k m s = (Continue s1, m1)"
    and z: "think_token_count s1 = 0" by blast
  from r have "rounds reopening_generate tokenizer B (Suc k) m s = loop_body reopening_generate tokenizer B m1 s1"
    by (simp only: rounds_Suc_end prod.case round_outcome.case)
  with reopening_continue[OF assms(1,2) z, of m1] show ?case by auto
qed

subsection \<open>After the loop\<close>

lemma run_unfold:
  "run_thinking_budget_sample generate m tokenizer user_input B =
     (case thinking_loop generate tokenizer B m (initial_state tokenizer user_input) of
        None \<Rightarrow> None
      | Some (Raised e s, m') \<Rightarrow> Some (Failed e (requests s), m')
      | Some (Exited outputs s, m') \<Rightarrow>
          Some (finalize generate tokenizer final_sampling_params
            (count_token (build_input user_input tokenizer) tokenizer) outputs m' s))"
  unfolding final_sampling_params_def
  by (simp add: run_thinking_budget_sample_def SamplingParams_def Let_def)

lemma run_after_exit:
  assumes "thinking_loop generate tokenizer B m (initial_state tokenizer user_input) =
      Some (Exited outputs s, m')"
  shows "run_thinking_budget_sample generate m tokenizer user_input B =
     Some (finalize generate tokenizer final_sampling_params
        (count_token (build_input user_input tokenizer) tokenizer) outputs m' s)"
  using assms
  by (simp add: run_unfold)

lemma finalize_calls:
  assumes "prompt_plus_text outputs = Inr accumulated"
  shows "calls_of (fst (finalize generate tokenizer params n outputs m s)) =
     requests s @ [(accumulated @ close_marker, params)]"
  using assms
  by (simp add: finalize_def Let_def split: prod.splits sum.splits)

lemma finalize_Completed:
  assumes "finalize generate tokenizer params n outputs m s = (Completed r, m')"
  shows "round_lines r = progress s \<and> summary_iteration_count r = iteration_count s \<and>
     length (generate_calls r) = Suc (length (requests s))"
  using assms
  by (auto simp: finalize_def Let_def split: prod.splits sum.splits)

lemma run_Completed:
  assumes "run_thinking_budget_sample generate m tokenizer user_input B = Some (Completed r, m')"
  shows "\<exists>outputs s m1. thinking_loop generate tokenizer B m (initial_state tokenizer user_input) =
       Some (Exited outputs s, m1) \<and>
     finalize generate tokenizer final_sampling_params
        (count_token (build_input user_input tokenizer) tokenizer) outputs m1 s = (Completed r, m')"
  using assms
  by (auto simp: run_unfold split: option.splits prod.splits loop_result.splits)

lemma exit_requests:
  assumes "outcome_inv B (Leave (Exited outputs s))"
  shows "length (requests s) = length (progress s)"
    and "map snd (requests s) = round_params B 0 # map (round_params B) (butlast (counts s))"
proof -
  from assms have e: "map snd (requests s) = map (round_params B) (butlast (0 # counts s))"
    and ne: "progress s \<noteq> []" by simp_all
  from ne have bl: "butlast (0 # counts s) = 0 # butlast (counts s)" by (simp add: counts_def)
  from e show "map snd (requests s) = round_params B 0 # map (round_params B) (butlast (counts s))"
    unfolding bl by simp
  then have "length (map snd (requests s)) =
      length (round_params B 0 # map (round_params B) (butlast (counts s)))"
    by (simp only:)
  with ne show "length (requests s) = length (progress s)" by (simp add: counts_def)
qed

lemma exit_caps_below:
  assumes "outcome_inv B (Leave (Exited outputs s))"
  shows "list_all (\<lambda>q. max_tokens (snd q) < 4096) (requests s) \<longleftrightarrow> B < 4096"
proof -
  from assms have nn: "\<forall>c\<in>set (counts s). 0 \<le> c" by (simp add: state_inv_def)
  have "list_all (\<lambda>q. max_tokens (snd q) < 4096) (requests s) \<longleftrightarrow>
      list_all (\<lambda>p. max_tokens p < 4096) (map snd (requests s))"
    by (simp add: list_all_iff)
  also have "\<dots> \<longleftrightarrow> list_all (\<lambda>p. max_tokens p < 4096)
      (round_params B 0 # map (round_params B) (butlast (counts s)))"
    by (simp only: exit_requests(2)[OF assms])
  also have "\<dots> \<longleftrightarrow> B < 4096"
  proof
    assume "list_all (\<lambda>p. max_tokens p < 4096)
      (round_params B 0 # map (round_params B) (butlast (counts s)))"
    then show "B < 4096" by (simp add: round_params_def)
  next
    assume b: "B < 4096"
    have "\<And>c. c \<in> set (butlast (counts s)) \<Longrightarrow> B - c < 4096"
    proof -
      fix c assume "c \<in> set (butlast (counts s))"
      then have "c \<in> set (counts s)" by (rule in_set_butlastD)
      with nn have "0 \<le> c" by blast
      with b show "B - c < 4096" by simp
    qed
    with b show "list_all (\<lambda>p. max_tokens p < 4096)
      (round_params B 0 # map (round_params B) (butlast (counts s)))"
      by (simp add: round_params_def list_all_iff)
  qed
  finally show ?thesis .
qed

lemma mock_finalize:
  assumes "prompt_plus_text outputs = Inr accumulated"
  shows "finalize (mock_generate N answer) mock_tokenizer final_sampling_params n outputs m s =
     (Completed
        \<lparr>generate_calls = requests s @ [(accumulated @ close_marker, final_sampling_params)],
         round_lines = progress s,
         total_content = (accumulated @ close_marker) @ answer,
         summary_iteration_count = iteration_count s,
         summary_input_token_count = n,
         summary_thinking_token_count =
           count_token (hd (str_split ''</think>''
             (last (str_split ''<think>'' ((accumulated @ close_marker) @ answer))))) mock_tokenizer,
         summary_total_token_count = count_token ((accumulated @ close_marker) @ answer) mock_tokenizer\<rparr>, m)"
  using assms
  by (simp add: finalize_def mock_generate_def final_sampling_params_def prompt_plus_text_def Let_def)

lemma mock_run_completed:
  assumes "0 < N" "0 \<le> B" "\<not> int N dvd B"
  shows "\<exists>r outputs s accumulated.
     thinking_loop (mock_generate N answer) mock_tokenizer B () (initial_state mock_tokenizer user_input) =
       Some (Exited outputs s, ()) \<and>
     run_thinking_budget_sample (mock_generate N answer) () mock_tokenizer user_input B =
       Some (Completed r, ()) \<and>
     generate_calls r = requests s @ [(accumulated @ close_marker, final_sampling_params)] \<and>
     round_lines r = progress s \<and>
     summary_iteration_count r = iteration_count s \<and>
     summary_thinking_token_count r =
       count_token (hd (str_split ''</think>''
         (last (str_split ''<think>'' ((accumulated @ close_marker) @ answer))))) mock_tokenizer \<and>
     length (requests s) = Suc (nat (B div int N)) \<and>
     counts s = map (\<lambda>i. int (Suc i) * int N) [0..<Suc (nat (B div int N))]"
proof -
  from mock_loop_exit[OF assms, of answer "()" user_input] obtain outputs s m where
    e: "thinking_loop (mock_generate N answer) mock_tokenizer B () (initial_state mock_tokenizer user_input) =
       Some (Exited outputs s, m)"
    and l: "length (requests s) = Suc (nat (B div int N))"
    and c: "counts s = map (\<lambda>i. int (Suc i) * int N) [0..<Suc (nat (B div int N))]"
    by blast
  from thinking_loop_inv[OF e] obtain accumulated where
    a: "prompt_plus_text outputs = Inr accumulated" by auto
  let ?n = "count_token (build_input user_input mock_tokenizer) mock_tokenizer"
  let ?r = "\<lparr>generate_calls = requests s @ [(accumulated @ close_marker, final_sampling_params)],
         round_lines = progress s,
         total_content = (accumulated @ close_marker) @ answer,
         summary_iteration_count = iteration_count s,
         summary_input_token_count = ?n,
         summary_thinking_token_count =
           count_token (hd (str_split ''</think>''
             (last (str_split ''<think>'' ((accumulated @ close_marker) @ answer))))) mock_tokenizer,
         summary_total_token_count = count_token ((accumulated @ close_marker) @ answer) mock_tokenizer\<rparr>"
  have m: "m = ()" by simp
  have run: "run_thinking_budget_sample (mock_generate N answer) () mock_tokenizer user_input B =
       Some (Completed ?r, ())"
    using run_after_exit[OF e] mock_finalize[OF a, of N answer ?n m s] by (simp only: m)
  have fields: "generate_calls ?r = requests s @ [(accumulated @ close_marker, final_sampling_params)]"
    "round_lines ?r = progress s" "summary_iteration_count ?r = iteration_count s"
    "summary_thinking_token_count ?r =
       count_token (hd (str_split ''</think>''
         (last (str_split ''<think>'' ((accumulated @ close_marker) @ answer))))) mock_tokenizer"
    by simp_all
  from e[unfolded m] run fields l c show ?thesis by blast
qed

subsection \<open>Two models with the same responses\<close>

lemma loop_body_rel:
  assumes R: "R m1 m2"
    and sim: "\<And>a b x p. R a b \<Longrightarrow> fst (g1 a x p) = fst (g2 b x p) \<and> R (snd (g1 a x p)) (snd (g2 b x p))"
  shows "fst (loop_body g1 tokenizer B m1 s) = fst (loop_body g2 tokenizer B m2 s) \<and>
     R (snd (loop_body g1 tokenizer B m1 s)) (snd (loop_body g2 tokenizer B m2 s))"
proof -
  let ?p = "round_params B (think_token_count s)"
  show ?thesis
  proof (cases "think_token_count s < B")
    case False
    then have "B \<le> think_token_count s" by simp
    from loop_body_refused[OF this, of g1 tokenizer m1] loop_body_refused[OF this, of g2 tokenizer m2] R
    show ?thesis by simp
  next
    case True
    then have w: "wait_sampling_params B (think_token_count s) = Inr ?p"
      by (simp add: wait_sampling_params_Inr)
    obtain o1 n1 where a: "g1 m1 (input_text s) ?p = (o1, n1)" by (cases "g1 m1 (input_text s) ?p")
    obtain o2 n2 where b: "g2 m2 (input_text s) ?p = (o2, n2)" by (cases "g2 m2 (input_text s) ?p")
    from sim[OF R, of "input_text s" ?p] a b have "o1 = o2" and "R n1 n2" by simp_all
    with a b w show ?thesis
      by (simp add: loop_body_def Let_def split: sum.splits prod.splits)
  qed
qed

lemma rounds_rel:
  assumes sim: "\<And>a b x p. R a b \<Longrightarrow> fst (g1 a x p) = fst (g2 b x p) \<and> R (snd (g1 a x p)) (snd (g2 b x p))"
  shows "R m1 m2 \<Longrightarrow>
     fst (rounds g1 tokenizer B k m1 s) = fst (rounds g2 tokenizer B k m2 s) \<and>
     R (snd (rounds g1 tokenizer B k m1 s)) (snd (rounds g2 tokenizer B k m2 s))"
proof (induction k arbitrary: m1 m2 s)
  case 0
  then show ?case by simp
next
  case (Suc k)
  obtain out1 n1 where a: "loop_body g1 tokenizer B m1 s = (out1, n1)"
    by (cases "loop_body g1 tokenizer B m1 s")
  obtain out2 n2 where b: "loop_body g2 tokenizer B m2 s = (out2, n2)"
    by (cases "loop_body g2 tokenizer B m2 s")
  from loop_body_rel[where ?g1.0 = g1 and ?g2.0 = g2, OF Suc.prems sim, of tokenizer B s] a b
  have eq: "out1 = out2" and R': "R n1 n2" by simp_all
  show ?case
  proof (cases out1)
    case (Continue s1)
    with eq have "out2 = Continue s1" by simp
    with Continue a b Suc.IH[OF R', of s1] show ?thesis by simp
  next
    case (Leave r)
    with eq have "out2 = Leave r" by simp
    with Leave a b R' show ?thesis by simp
  qed
qed

lemma thinking_loop_rel_Some:
  assumes sim: "\<And>a b x p. R a b \<Longrightarrow> fst (g1 a x p) = fst (g2 b x p) \<and> R (snd (g1 a x p)) (snd (g2 b x p))"
    and R: "R m1 m2"
    and l: "thinking_loop g1 tokenizer B m1 s = Some (r, n1)"
  shows "\<exists>n2. thinking_loop g2 tokenizer B m2 s = Some (r, n2) \<and> R n1 n2"
proof -
  from thinking_loop_rounds[OF l] obtain k where
    k: "rounds g1 tokenizer B (Suc k) m1 s = (Leave r, n1)" by auto
  obtain out2 n2 where b: "rounds g2 tokenizer B (Suc k) m2 s = (out2, n2)"
    by (cases "rounds g2 tokenizer B (Suc k) m2 s")
  from rounds_rel[where ?g1.0 = g1 and ?g2.0 = g2, OF sim R, of tokenizer B "Suc k" s] k b
  have "out2 = Leave r" and "R n1 n2" by (simp_all del: rounds.simps)
  with b rounds_Leave_thinking_loop[of g2 tokenizer B "Suc k" m2 s r n2] show ?thesis by blast
qed

lemma finalize_rel:
  assumes sim: "\<And>a b x p. R a b \<Longrightarrow> fst (g1 a x p) = fst (g2 b x p) \<and> R (snd (g1 a x p)) (snd (g2 b x p))"
    and R: "R n1 n2"
  shows "fst (finalize g1 tokenizer params n outputs n1 s) =
     fst (finalize g2 tokenizer params n outputs n2 s)"
proof (cases "prompt_plus_text outputs")
  case (Inl e)
  then show ?thesis by (simp add: finalize_def)
next
  case (Inr accumulated)
  let ?x = "accumulated @ close_marker"
  obtain o1 k1 where a: "g1 n1 ?x params = (o1, k1)" by (cases "g1 n1 ?x params")
  obtain o2 k2 where b: "g2 n2 ?x params = (o2, k2)" by (cases "g2 n2 ?x params")
  from sim[OF R, of ?x params] a b have "o1 = o2" by simp
  with a b Inr show ?thesis by (simp add: finalize_def Let_def split: sum.splits)
qed

lemma run_rel_Some:
  assumes sim: "\<And>a b x p. R a b \<Longrightarrow> fst (g1 a x p) = fst (g2 b x p) \<and> R (snd (g1 a x p)) (snd (g2 b x p))"
    and R: "R m1 m2"
    and run: "run_thinking_budget_sample g1 m1 tokenizer user_input B = Some (outcome, n1)"
  shows "\<exists>n2. run_thinking_budget_sample g2 m2 tokenizer user_input B = Some (outcome, n2)"
proof -
  let ?s = "initial_state tokenizer user_input"
  let ?n = "count_token (build_input user_input tokenizer) tokenizer"
  let ?p = final_sampling_params
  from run obtain r k1 where l: "thinking_loop g1 tokenizer B m1 ?s = Some (r, k1)"
    by (auto simp: run_unfold split: option.splits)
  from thinking_loop_rel_Some[where ?g1.0 = g1 and ?g2.0 = g2, OF sim R l] obtain k2 where
    l2: "thinking_loop g2 tokenizer B m2 ?s = Some (r, k2)" and R': "R k1 k2" by blast
  show ?thesis
  proof (cases r)
    case (Raised e s)
    with l l2 run show ?thesis by (simp add: run_unfold)
  next
    case (Exited outputs s)
    from finalize_rel[where ?g1.0 = g1 and ?g2.0 = g2, OF sim R', of tokenizer ?p ?n outputs s]
    have "fst (finalize g1 tokenizer ?p ?n outputs k1 s) = fst (finalize g2 tokenizer ?p ?n outputs k2 s)" .
    moreover from Exited l run have "finalize g1 tokenizer ?p ?n outputs k1 s = (outcome, n1)"
      by (simp add: run_unfold)
    ultimately have "fst (finalize g2 tokenizer ?p ?n outputs k2 s) = outcome" by simp
    with Exited l2 show ?thesis
      by (cases "finalize g2 tokenizer ?p ?n outputs k2 s") (simp add: run_unfold)
  qed
qed

section \<open>The claims\<close>

subsection \<open>C1: the number of rounds under a model that adds \<open>N\<close> tokens per call\<close>



subsection \<open>C2: the loop need not terminate\<close>

text \<open>
  C2. There is a model under which the loop never exits: the model that echoes its
  prompt and opens a new reasoning segment on every call. The text behind the last
  \<^verbatim>\<open><think>\<close> marker is then empty in every round, so with any tokenizer that has no
  tokens for the empty text the measured count is 0 in every round and the cap of every
  call is the whole budget; for every budget
  \<open>B \<ge> 1\<close> the run never returns, and after any number \<open>k\<close> of rounds the loop is still
  running. Nothing in the loop bounds the number of rounds.
\<close>

theorem reopening_model_never_exits:
  assumes "input_ids tokenizer [] = []" and "0 < B"
  shows "run_thinking_budget_sample reopening_generate () tokenizer user_input B = None \<and>
     (\<forall>k. \<exists>s m. rounds reopening_generate tokenizer B k () (initial_state tokenizer user_input) =
        (Continue s, m))"
proof -
  have z: "think_token_count (initial_state tokenizer user_input) = 0"
    by (simp add: initial_state_def)
  have r: "\<forall>k. \<exists>s m. rounds reopening_generate tokenizer B k () (initial_state tokenizer user_input) =
        (Continue s, m)"
    using reopening_running[OF assms z] by blast
  then have "thinking_loop reopening_generate tokenizer B () (initial_state tokenizer user_input) = None"
    by (rule iffD2[OF thinking_loop_None_iff])
  then show ?thesis using r by (simp add: run_unfold)
qed

text \<open>With the mock tokenizer and budget 100.\<close>

theorem reopening_model_never_exits_witness:
  "input_ids mock_tokenizer [] = [] \<and> (0::int) < 100 \<and>
   run_thinking_budget_sample reopening_generate () mock_tokenizer ''2+2?'' 100 = None"
proof -
  have a: "input_ids mock_tokenizer [] = []" by (simp add: mock_tokenizer_def)
  have b: "(0::int) < 100" by simp
  from reopening_model_never_exits[OF a b, of "''2+2?''"] a b show ?thesis by blast
qed

subsection \<open>C3: the count at loop exit\<close>

text \<open>
  C3, as amended. In every run in which the loop leaves through the budget test,
  \<open>think_token_count\<close> is then greater than the budget; it is the count shown by the last
  progress line, and every earlier round measured a count of at most the budget. (The
  thinking-token figure of the closing summary is not this variable: it is the token count
  of the text between the last \<^verbatim>\<open><think>\<close> and the next \<^verbatim>\<open></think>\<close> of the final
  transcript, and is not bounded by the budget.)
\<close>

theorem think_token_count_at_exit:
  assumes "thinking_loop generate tokenizer B m (initial_state tokenizer user_input) =
      Some (Exited outputs s, m')"
  shows "B < think_token_count s \<and> progress s \<noteq> [] \<and>
     snd (last (progress s)) = think_token_count s \<and>
     list_all (\<lambda>c. c \<le> B) (butlast (map snd (progress s)))"
proof -
  from thinking_loop_inv[OF assms] have t: "think_token_count s = last (0 # counts s)"
    and ne: "progress s \<noteq> []" and b: "\<forall>c\<in>set (butlast (counts s)). c \<le> B"
    and l: "B < last (counts s)" by (simp_all add: state_inv_def)
  from ne have "last (0 # counts s) = last (counts s)" by (simp add: counts_def)
  moreover from ne have "last (counts s) = snd (last (progress s))" by (simp add: counts_def last_map)
  ultimately show ?thesis using t ne b l by (simp add: counts_def list_all_iff)
qed

text \<open>On the mock model with budget 100 and 40 tokens per call the loop exits, with a
  count above 100.\<close>

theorem think_token_count_at_exit_witness:
  "\<exists>outputs s m'. thinking_loop (mock_generate 40 ''4'') mock_tokenizer 100 ()
        (initial_state mock_tokenizer ''2+2?'') = Some (Exited outputs s, m') \<and>
      100 < think_token_count s \<and> snd (last (progress s)) = think_token_count s"
proof -
  from mock_loop_exit[of 40 100 "''4''" "()" "''2+2?''"] obtain outputs s m' where
    e: "thinking_loop (mock_generate 40 ''4'') mock_tokenizer 100 ()
        (initial_state mock_tokenizer ''2+2?'') = Some (Exited outputs s, m')" by auto
  from think_token_count_at_exit[OF e] e show ?thesis by blast
qed

text \<open>
  The summary's figure against C3 as stated: on the mock model with budget 100, 101 tokens
  in the first call and a final answer that names the \<^verbatim>\<open><think>\<close> marker, the loop exits
  with the count 101, and the thinking-token figure of the summary is 0.
\<close>

theorem summary_thinking_count_counterexample:
  "(case run_thinking_budget_sample (mock_generate 101 ''4<think>'') () mock_tokenizer ''2+2?'' 100 of
      Some (Completed r, m) \<Rightarrow>
        map snd (round_lines r) = [101] \<and> summary_thinking_token_count r = 0
    | _ \<Rightarrow> False)"
proof -
  from mock_run_completed[of 101 100 "''4<think>''" "''2+2?''"] obtain r s accumulated where
    c: "run_thinking_budget_sample (mock_generate 101 ''4<think>'') () mock_tokenizer ''2+2?'' 100 =
       Some (Completed r, ())"
    and rl: "round_lines r = progress s"
    and t: "summary_thinking_token_count r =
       count_token (hd (str_split ''</think>''
         (last (str_split ''<think>'' ((accumulated @ close_marker) @ ''4<think>''))))) mock_tokenizer"
    and cs: "counts s = map (\<lambda>i. int (Suc i) * int 101) [0..<Suc (nat (100 div int 101))]" by auto
  have "last (split_from (CHR ''<'' # ''think>'') [] ((accumulated @ close_marker @ ''4'') @ (CHR ''<'' # ''think>'') @ [])) = []"
    by (rule split_from_last) simp_all
  then have "last (str_split ''<think>'' ((accumulated @ close_marker) @ ''4<think>'')) = []"
    by (simp add: str_split_def)
  with t have "summary_thinking_token_count r = 0"
    by (simp add: str_split_def count_token_def mock_tokenizer_def)
  moreover from cs rl have "map snd (round_lines r) = [101]" by (simp add: counts_def)
  ultimately show ?thesis using c by simp
qed

subsection \<open>C4: the cap of a call inside the loop\<close>

text \<open>
  C4, as amended. The script itself has no guard on the cap \<open>B - think_token_count\<close>, and
  the cap it computes can reach zero: when a continuing round has measured exactly \<open>B\<close>,
  the next round computes the cap 0. No generation call is issued with it, though: the
  constructor of the sampling parameters refuses a cap below 1 with \<^verbatim>\<open>ValueError\<close>, which
  ends the run before the call. So at any point of any run, every generation call issued
  inside the loop has \<open>max_tokens \<ge> 1\<close>. For a budget \<open>B \<ge> 1\<close> the computed cap is never
  negative, since a round that measures more than \<open>B\<close> leaves the loop. On the mock model
  with budget 80 and 40 tokens per call, two calls are issued, with the caps 80 and 40, and
  the run ends with the \<^verbatim>\<open>ValueError\<close> of the third round's cap 0.
\<close>

theorem in_loop_cap_at_least_one:
  "list_all (\<lambda>q. 1 \<le> max_tokens (snd q))
     (requests (after_rounds generate tokenizer B k m user_input)) \<and>
   (0 < B \<and> rounds generate tokenizer B k m (initial_state tokenizer user_input) = (Continue s, m') \<longrightarrow>
      0 \<le> B - think_token_count s \<and>
      (B - think_token_count s = 0 \<longrightarrow>
         loop_body generate tokenizer B m' s = (Leave (Raised ValueError s), m'))) \<and>
   (case thinking_loop (mock_generate 40 ''4'') mock_tokenizer 80 ()
          (initial_state mock_tokenizer ''2+2?'') of
      Some (Raised e s', m'') \<Rightarrow>
        e = ValueError \<and> map (\<lambda>q. max_tokens (snd q)) (requests s') = [80, 40] \<and>
        map snd (progress s') = [40, 80]
    | _ \<Rightarrow> False)"
proof (intro conjI)
  show "list_all (\<lambda>q. 1 \<le> max_tokens (snd q))
     (requests (after_rounds generate tokenizer B k m user_input))"
    by (rule issued_caps)
next
  show "0 < B \<and> rounds generate tokenizer B k m (initial_state tokenizer user_input) = (Continue s, m') \<longrightarrow>
      0 \<le> B - think_token_count s \<and>
      (B - think_token_count s = 0 \<longrightarrow>
         loop_body generate tokenizer B m' s = (Leave (Raised ValueError s), m'))"
  proof (intro impI conjI)
    assume a: "0 < B \<and> rounds generate tokenizer B k m (initial_state tokenizer user_input) = (Continue s, m')"
    then have B: "0 < B"
      and r: "rounds generate tokenizer B k m (initial_state tokenizer user_input) = (Continue s, m')"
      by simp_all
    from rounds_inv[OF outcome_inv_initial, of B generate tokenizer k m tokenizer user_input] r
    have inv: "outcome_inv B (Continue s)" by simp
    then have t: "think_token_count s = last (0 # counts s)"
      and bnd: "\<forall>c\<in>set (counts s). c \<le> B" by (simp_all add: state_inv_def)
    have "last (0 # counts s) \<in> set (0 # counts s)" by (rule last_in_set) simp
    with bnd B have "last (0 # counts s) \<le> B" by auto
    with t show "0 \<le> B - think_token_count s" by simp
  next
    assume "B - think_token_count s = 0"
    then have "B \<le> think_token_count s" by simp
    then show "loop_body generate tokenizer B m' s = (Leave (Raised ValueError s), m')"
      by (rule loop_body_refused)
  qed
next
  have l: "[0..<nat (80 div 40)] = [0, 1]" by (simp add: upt_rec)
  have d: "int 40 dvd 80" by simp
  from mock_loop_refused[of 40 80 "''4''" "()" "''2+2?''"] d
  obtain s' m'' where
    e: "thinking_loop (mock_generate 40 ''4'') mock_tokenizer 80 ()
        (initial_state mock_tokenizer ''2+2?'') = Some (Raised ValueError s', m'')"
    and c: "counts s' = map (\<lambda>i. int (Suc i) * int 40) [0..<nat (80 div int 40)]"
    by auto
  from c l have c': "counts s' = [40, 80]" by simp
  from thinking_loop_inv[OF e]
  have "map snd (requests s') = map (round_params 80) (butlast (0 # counts s'))" by simp
  moreover have "map (\<lambda>q. max_tokens (snd q)) (requests s') = map max_tokens (map snd (requests s'))"
    by (simp add: comp_def)
  ultimately have "map (\<lambda>q. max_tokens (snd q)) (requests s') =
      map max_tokens (map (round_params 80) (butlast (0 # counts s')))"
    by (simp only:)
  with c' have "map (\<lambda>q. max_tokens (snd q)) (requests s') = [80, 40]"
    by (simp add: round_params_def)
  with e c' show "case thinking_loop (mock_generate 40 ''4'') mock_tokenizer 80 ()
          (initial_state mock_tokenizer ''2+2?'') of
      Some (Raised e s', m'') \<Rightarrow>
        e = ValueError \<and> map (\<lambda>q. max_tokens (snd q)) (requests s') = [80, 40] \<and>
        map snd (progress s') = [40, 80]
    | _ \<Rightarrow> False" by (simp add: counts_def)
qed

text \<open>The mock model with budget 80 and 40 tokens per call, after two rounds: the loop is
  running, the cap of the next round is 0, and that round raises.\<close>

theorem in_loop_cap_at_least_one_witness:
  "\<exists>s m'. (0::int) < 80 \<and>
     rounds (mock_generate 40 ''4'') mock_tokenizer 80 2 () (initial_state mock_tokenizer ''2+2?'') =
       (Continue s, m') \<and>
     80 - think_token_count s = 0 \<and>
     loop_body (mock_generate 40 ''4'') mock_tokenizer 80 m' s = (Leave (Raised ValueError s), m')"
proof -
  have "\<exists>s m'. rounds (mock_generate 40 ''4'') mock_tokenizer 80 2 ()
        (initial_state mock_tokenizer ''2+2?'') = (Continue s, m') \<and>
      length (requests s) = 2 \<and> counts s = map (\<lambda>i. int (Suc i) * int 40) [0..<2] \<and>
      think_token_count s = int 2 * int 40"
  proof (rule fixed_increment_running)
    show "0 < int 40" by simp
    show "(0::int) \<le> 80" by simp
    show "\<And>k s m. rounds (mock_generate 40 ''4'') mock_tokenizer 80 k ()
          (initial_state mock_tokenizer ''2+2?'') = (Continue s, m) \<Longrightarrow>
      think_token_count s < 80 \<Longrightarrow>
      \<exists>total_token. count_thinking_token
        (fst (mock_generate 40 ''4'' m (input_text s) (round_params 80 (think_token_count s))))
        mock_tokenizer = Inr (total_token, int (Suc k) * int 40)"
      by (rule mock_measure)
    show "2 \<le> nat (80 div int 40)" by simp
  qed
  then obtain s m' where
    r: "rounds (mock_generate 40 ''4'') mock_tokenizer 80 2 ()
        (initial_state mock_tokenizer ''2+2?'') = (Continue s, m')"
    and t: "think_token_count s = int 2 * int 40" by blast
  from t have z: "80 - think_token_count s = 0" by simp
  have b: "(0::int) < 80" by simp
  from in_loop_cap_at_least_one[of "mock_generate 40 ''4''" mock_tokenizer 80 2 "()" "''2+2?''" s m']
    b r z
  have "loop_body (mock_generate 40 ''4'') mock_tokenizer 80 m' s = (Leave (Raised ValueError s), m')"
    by blast
  with b r z show ?thesis by blast
qed

text \<open>
  No model, no budget and no point of a run give a call inside the loop a cap of zero or
  below. (A model whose state is a counter of its calls can give any sequence of
  responses, so the state type \<open>nat\<close> loses no response sequence.)
\<close>

theorem zero_or_negative_cap_counterexample:
  "\<not> (\<exists>(generate :: nat llm) tokenizer B k m user_input q.
        q \<in> set (requests (after_rounds generate tokenizer B k m user_input)) \<and>
        max_tokens (snd q) \<le> 0)"
proof
  assume "\<exists>(generate :: nat llm) tokenizer B k m user_input q.
        q \<in> set (requests (after_rounds generate tokenizer B k m user_input)) \<and>
        max_tokens (snd q) \<le> 0"
  then obtain generate :: "nat llm" and tokenizer B k m user_input q where
    q: "q \<in> set (requests (after_rounds generate tokenizer B k m user_input))"
    and z: "max_tokens (snd q) \<le> 0" by blast
  from issued_caps[of generate tokenizer B k m user_input] q have "1 \<le> max_tokens (snd q)"
    by (simp add: list_all_iff)
  with z show False by simp
qed

subsection \<open>C5: the call after the loop\<close>

text \<open>
  C5, as amended. In every run in which the loop leaves through the budget test, exactly
  one more generation call follows the calls of the loop (also when the run then fails on
  that call's result). Its input is the last call's prompt plus its continuation plus the
  close marker (newline, \<^verbatim>\<open></think>\<close>, newline); its sampling parameters are the fixed ones
  with \<open>max_tokens = 4096\<close> and no stop string. That cap is a constant: it is larger than
  the cap of every call inside the loop exactly when the budget is below 4096.
\<close>

theorem one_final_call:
  assumes "thinking_loop generate tokenizer B m (initial_state tokenizer user_input) =
      Some (Exited outputs s, m')"
  shows "\<exists>accumulated outcome m''.
     prompt_plus_text outputs = Inr accumulated \<and>
     run_thinking_budget_sample generate m tokenizer user_input B = Some (outcome, m'') \<and>
     calls_of outcome = requests s @
       [(accumulated @ [CHR 0x0A] @ ''</think>'' @ [CHR 0x0A],
         \<lparr>temperature = 7 / 10, max_tokens = 4096, stop = None, skip_special_tokens = False\<rparr>)] \<and>
     (list_all (\<lambda>q. max_tokens (snd q) < 4096) (requests s) \<longleftrightarrow> B < 4096)"
proof -
  note inv = thinking_loop_inv[OF assms]
  then obtain accumulated where a: "prompt_plus_text outputs = Inr accumulated" by auto
  let ?n = "count_token (build_input user_input tokenizer) tokenizer"
  have r: "run_thinking_budget_sample generate m tokenizer user_input B =
      Some (fst (finalize generate tokenizer final_sampling_params ?n outputs m' s), snd (finalize generate tokenizer final_sampling_params ?n outputs m' s))"
    using run_after_exit[OF assms] by simp
  from finalize_calls[OF a, of generate tokenizer final_sampling_params ?n m' s]
  have c: "calls_of (fst (finalize generate tokenizer final_sampling_params ?n outputs m' s)) = requests s @
       [(accumulated @ [CHR 0x0A] @ ''</think>'' @ [CHR 0x0A],
         \<lparr>temperature = 7 / 10, max_tokens = 4096, stop = None, skip_special_tokens = False\<rparr>)]"
    by (simp add: close_marker_def final_sampling_params_def)
  from a r c exit_caps_below[OF inv] show ?thesis by blast
qed

text \<open>The mock model with budget 100 and 40 tokens per call: three calls inside the loop
  and a fourth with the cap 4096.\<close>

theorem one_final_call_witness:
  "\<exists>outcome m''.
     run_thinking_budget_sample (mock_generate 40 ''4'') () mock_tokenizer ''2+2?'' 100 =
       Some (outcome, m'') \<and>
     length (calls_of outcome) = 4 \<and>
     max_tokens (snd (last (calls_of outcome))) = 4096"
proof -
  from mock_loop_exit[of 40 100 "''4''" "()" "''2+2?''"] obtain outputs s m' where
    e: "thinking_loop (mock_generate 40 ''4'') mock_tokenizer 100 ()
        (initial_state mock_tokenizer ''2+2?'') = Some (Exited outputs s, m')"
    and l: "length (requests s) = Suc (nat (100 div int 40))" by auto
  from one_final_call[OF e] l show ?thesis by auto
qed

text \<open>
  With the budget 32768 of the script's own invocation (and a first call of 32769 tokens
  on the mock model), the call inside the loop has the cap 32768 and the final call the
  cap 4096.
\<close>

theorem final_cap_counterexample:
  "(case run_thinking_budget_sample (mock_generate 32769 ''4'') () mock_tokenizer ''2+2?'' 32768 of
      Some (Completed r, m) \<Rightarrow> map (\<lambda>q. max_tokens (snd q)) (generate_calls r) = [32768, 4096]
    | _ \<Rightarrow> False)"
proof -
  from mock_run_completed[of 32769 32768 "''4''" "''2+2?''"] obtain r outputs s accumulated where
    e: "thinking_loop (mock_generate 32769 ''4'') mock_tokenizer 32768 () (initial_state mock_tokenizer ''2+2?'') =
       Some (Exited outputs s, ())"
    and c: "run_thinking_budget_sample (mock_generate 32769 ''4'') () mock_tokenizer ''2+2?'' 32768 =
       Some (Completed r, ())"
    and g: "generate_calls r = requests s @ [(accumulated @ close_marker, final_sampling_params)]"
    and cs: "counts s = map (\<lambda>i. int (Suc i) * int 32769) [0..<Suc (nat (32768 div int 32769))]" by auto
  from cs have cs': "butlast (counts s) = []" by simp
  have "map (\<lambda>q. max_tokens (snd q)) (requests s) = map max_tokens (map snd (requests s))"
    by (simp add: comp_def)
  also have "\<dots> = [32768]"
    by (simp add: exit_requests(2)[OF thinking_loop_inv[OF e]] cs' round_params_def)
  finally have "map (\<lambda>q. max_tokens (snd q)) (generate_calls r) = [32768, 4096]"
    using g by (simp add: final_sampling_params_def)
  with c show ?thesis by simp
qed

subsection \<open>C6: a first call that already exceeds the budget\<close>

text \<open>
  C6. If the count measured after the first generation call (which is made when the
  budget is at least 1) exceeds the budget, the loop body runs exactly once: the loop
  leaves with that one request issued, one progress line (showing iteration 0 and the
  count), and \<open>iteration_count\<close> still 0.
\<close>

theorem first_call_over_budget:
  assumes "0 < B"
    and "generate m (build_input user_input tokenizer)
           \<lparr>temperature = 7 / 10, max_tokens = B, stop = Some ''</think>'',
            skip_special_tokens = False\<rparr> = (outputs, m')"
    and "count_thinking_token outputs tokenizer = Inr (total_token, cnt)"
    and "B < cnt"
  shows "thinking_loop generate tokenizer B m (initial_state tokenizer user_input) =
     Some (Exited outputs
       \<lparr>requests = [(build_input user_input tokenizer,
           \<lparr>temperature = 7 / 10, max_tokens = B, stop = Some ''</think>'',
            skip_special_tokens = False\<rparr>)],
        progress = [(0, cnt)],
        input_text = build_input user_input tokenizer,
        think_token_count = cnt,
        iteration_count = 0\<rparr>, m')"
proof -
  let ?s = "initial_state tokenizer user_input"
  have lt: "think_token_count ?s < B" using assms(1) by (simp add: initial_state_def)
  have g: "generate m (input_text ?s) (round_params B (think_token_count ?s)) = (outputs, m')"
    using assms(2) by (simp add: initial_state_def round_params_def)
  from loop_body_exit[where generate = generate and m = m and s = ?s and B = B, OF lt g assms(3,4)]
  show ?thesis by (subst thinking_loop.simps) (simp add: initial_state_def round_params_def)
qed

text \<open>The mock model with budget 100 and 101 tokens in its first call.\<close>

theorem first_call_over_budget_witness:
  "\<exists>outputs s. thinking_loop (mock_generate 101 ''4'') mock_tokenizer 100 ()
       (initial_state mock_tokenizer ''2+2?'') = Some (Exited outputs s, ()) \<and>
     length (requests s) = 1 \<and> progress s = [(0, 101)]"
proof -
  let ?g = "mock_generate 101 ''4''"
  let ?p = "\<lparr>temperature = 7 / 10, max_tokens = 100, stop = Some ''</think>'',
            skip_special_tokens = False\<rparr>"
  let ?outputs = "fst (?g () (build_input ''2+2?'' mock_tokenizer) ?p)"
  have g: "?g () (build_input ''2+2?'' mock_tokenizer) ?p = (?outputs, ())"
    by (rule mock_generate_pair)
  have i: "build_input ''2+2?'' mock_tokenizer = (system_instruction @ ''2+2?'') @ think_open_nl @ []"
    by (simp add: mock_build_input)
  have n: "int (length (filter (\<lambda>c. c = CHR ''x'') []) + 101) = 101" by simp
  have p: "round_params 100 0 = ?p" by (simp add: round_params_def)
  have "CHR ''<'' \<notin> set []" by simp
  note mock_round_count[OF this, of 101 "''4''" "()" "system_instruction @ ''2+2?''" 100 0, unfolded n p]
  then have c: "count_thinking_token ?outputs mock_tokenizer =
      Inr ((system_instruction @ ''2+2?'') @ think_open_nl @ [] @ replicate 101 (CHR ''x''), 101)"
    unfolding i .
  have b: "(100::int) < 101" by simp
  have z: "(0::int) < 100" by simp
  from first_call_over_budget[where generate = ?g, OF z g c b] show ?thesis by simp
qed

subsection \<open>C7: the input of the final call\<close>

text \<open>
  C7. In every run in which the loop leaves through the budget test, the input of the last
  generation call issued ends with the forced close marker: a newline, \<^verbatim>\<open></think>\<close>, and a
  newline, the string the script appends.
\<close>

theorem final_input_ends_with_close_marker:
  assumes "thinking_loop generate tokenizer B m (initial_state tokenizer user_input) =
      Some (Exited outputs s, m')"
  shows "\<exists>outcome m''.
     run_thinking_budget_sample generate m tokenizer user_input B = Some (outcome, m'') \<and>
     calls_of outcome \<noteq> [] \<and>
     suffix ([CHR 0x0A] @ ''</think>'' @ [CHR 0x0A]) (fst (last (calls_of outcome)))"
proof -
  from thinking_loop_inv[OF assms] obtain accumulated where
    a: "prompt_plus_text outputs = Inr accumulated" by auto
  let ?n = "count_token (build_input user_input tokenizer) tokenizer"
  have r: "run_thinking_budget_sample generate m tokenizer user_input B =
      Some (fst (finalize generate tokenizer final_sampling_params ?n outputs m' s), snd (finalize generate tokenizer final_sampling_params ?n outputs m' s))"
    using run_after_exit[OF assms] by simp
  have "suffix close_marker (accumulated @ close_marker)" by (rule suffixI) simp
  with finalize_calls[OF a, of generate tokenizer final_sampling_params ?n m' s]
  have "calls_of (fst (finalize generate tokenizer final_sampling_params ?n outputs m' s)) \<noteq> [] \<and>
      suffix ([CHR 0x0A] @ ''</think>'' @ [CHR 0x0A])
        (fst (last (calls_of (fst (finalize generate tokenizer final_sampling_params ?n outputs m' s)))))"
    by (simp add: close_marker_def)
  with r show ?thesis by blast
qed

text \<open>The mock model with budget 100 and 40 tokens per call.\<close>

theorem final_input_ends_with_close_marker_witness:
  "\<exists>outcome m''.
     run_thinking_budget_sample (mock_generate 40 ''4'') () mock_tokenizer ''2+2?'' 100 =
       Some (outcome, m'') \<and>
     suffix ([CHR 0x0A] @ ''</think>'' @ [CHR 0x0A]) (fst (last (calls_of outcome)))"
proof -
  from mock_loop_exit[of 40 100 "''4''" "()" "''2+2?''"] obtain outputs s m' where
    e: "thinking_loop (mock_generate 40 ''4'') mock_tokenizer 100 ()
        (initial_state mock_tokenizer ''2+2?'') = Some (Exited outputs s, m')" by auto
  from final_input_ends_with_close_marker[OF e] show ?thesis by blast
qed

subsection \<open>C8: the sampling parameters of the calls inside the loop\<close>

text \<open>
  C8. At any point of any run (whether or not the loop ever exits), the generation calls
  issued inside the loop so far carry, in order, the sampling parameters with
  \<open>max_tokens = B - c\<close>, where \<open>c\<close> is 0 for the first call and, for each later call, the
  thinking-token count measured and printed by the round before it; each has the stop
  string \<^verbatim>\<open></think>\<close>, \<open>skip_special_tokens = False\<close> and temperature 0.7.
\<close>

theorem in_loop_sampling_params:
  "map snd (requests (after_rounds generate tokenizer B k m user_input)) =
     map (\<lambda>cnt. \<lparr>temperature = 7 / 10, max_tokens = B - cnt, stop = Some ''</think>'',
                 skip_special_tokens = False\<rparr>)
       (take (length (requests (after_rounds generate tokenizer B k m user_input)))
          (0 # map snd (progress (after_rounds generate tokenizer B k m user_input))))"
proof -
  from after_rounds_inv[of B generate tokenizer k m user_input] obtain out where
    "outcome_inv B out" "after_rounds generate tokenizer B k m user_input = state_of out" by blast
  with outcome_inv_params[of B out] show ?thesis
    by (simp add: counts_def round_params_def[abs_def])
qed

subsection \<open>C9: two runs on the same responses\<close>

text \<open>
  C9. A run is a function of the model (its \<open>generate\<close> function and its initial state),
  the tokenizer, the user input and the budget, so two runs on identical inputs agree by
  construction. The run moreover depends on the model only through its responses: if two
  models, possibly with different internal states, are related so that related states
  answer the same request with the same response and move to related states, then both
  runs never return, or both return the same outcome: the same requests, progress lines,
  iteration count and transcript \<open>total_content\<close>, or the same failure.
\<close>

theorem run_depends_on_responses_only:
  assumes "R m1 m2"
    and "\<And>a b x p. R a b \<Longrightarrow> fst (g1 a x p) = fst (g2 b x p) \<and> R (snd (g1 a x p)) (snd (g2 b x p))"
  shows "map_option fst (run_thinking_budget_sample g1 m1 tokenizer user_input B) =
     map_option fst (run_thinking_budget_sample g2 m2 tokenizer user_input B)"
proof -
  let ?R' = "\<lambda>b a. R a b"
  have sim': "\<And>a b x p. ?R' a b \<Longrightarrow> fst (g2 a x p) = fst (g1 b x p) \<and> ?R' (snd (g2 a x p)) (snd (g1 b x p))"
    using assms(2) by simp
  show ?thesis
  proof (cases "run_thinking_budget_sample g1 m1 tokenizer user_input B")
    case None
    show ?thesis
    proof (cases "run_thinking_budget_sample g2 m2 tokenizer user_input B")
      case None
      with \<open>run_thinking_budget_sample g1 m1 tokenizer user_input B = None\<close> show ?thesis by simp
    next
      case (Some p)
      obtain outcome n2 where "p = (outcome, n2)" by (cases p)
      with Some have run2: "run_thinking_budget_sample g2 m2 tokenizer user_input B = Some (outcome, n2)"
        by simp
      have "\<exists>n1. run_thinking_budget_sample g1 m1 tokenizer user_input B = Some (outcome, n1)"
        using sim' assms(1) run2
        by (rule run_rel_Some[where ?g1.0 = g2 and ?g2.0 = g1 and R = ?R'])
      with \<open>run_thinking_budget_sample g1 m1 tokenizer user_input B = None\<close> show ?thesis by simp
    qed
  next
    case (Some p)
    obtain outcome n1 where "p = (outcome, n1)" by (cases p)
    with Some have run1: "run_thinking_budget_sample g1 m1 tokenizer user_input B = Some (outcome, n1)"
      by simp
    have "\<exists>n2. run_thinking_budget_sample g2 m2 tokenizer user_input B = Some (outcome, n2)"
      using assms(2,1) run1
      by (rule run_rel_Some[where ?g1.0 = g1 and ?g2.0 = g2 and R = R])
    with run1 show ?thesis by auto
  qed
qed

text \<open>The mock model and the one that gives the same responses while counting its calls,
  with budget 100 and 40 tokens per call.\<close>

theorem run_depends_on_responses_only_witness:
  "map_option fst (run_thinking_budget_sample (mock_generate 40 ''4'') () mock_tokenizer ''2+2?'' 100) =
   map_option fst (run_thinking_budget_sample (counting_generate 40 ''4'') 0 mock_tokenizer ''2+2?'' 100)"
proof (rule run_depends_on_responses_only[where R = "\<lambda>a b. True"])
  show True ..
  show "\<And>a b x p. True \<Longrightarrow>
      fst (mock_generate 40 ''4'' a x p) = fst (counting_generate 40 ''4'' b x p) \<and> True"
    by (simp add: counting_generate_def mock_generate_def)
qed

subsection \<open>C10: the iteration count of the summary\<close>

text \<open>
  C10. In every completed run the iteration count of the summary is the number of
  executions of the loop body minus one. The body ran once for each progress line and
  issued one call each time (all calls but the final one); the \<open>i\<close>-th progress line shows
  the iteration number \<open>i - 1\<close>. So a run whose first call exceeds the budget reports 0.
\<close>

theorem reported_iteration_count:
  assumes "run_thinking_budget_sample generate m tokenizer user_input B = Some (Completed r, m')"
  shows "summary_iteration_count r = int (length (round_lines r)) - 1 \<and>
     length (generate_calls r) = length (round_lines r) + 1 \<and>
     round_lines r \<noteq> [] \<and>
     map fst (round_lines r) = map int [0..<length (round_lines r)]"
proof -
  from run_Completed[OF assms] obtain outputs s m1 where
    e: "thinking_loop generate tokenizer B m (initial_state tokenizer user_input) = Some (Exited outputs s, m1)"
    and f: "finalize generate tokenizer final_sampling_params
        (count_token (build_input user_input tokenizer) tokenizer) outputs m1 s = (Completed r, m')"
    by blast
  note inv = thinking_loop_inv[OF e]
  from inv have "iteration_count s + 1 = int (length (progress s))" and "progress s \<noteq> []"
    and "map fst (progress s) = map int [0..<length (progress s)]" by (simp_all add: state_inv_def)
  with finalize_Completed[OF f] exit_requests(1)[OF inv] show ?thesis by simp
qed

text \<open>The mock model with budget 100 and 101 tokens in the first call: one round, two calls
  in all, and the summary reports 0 iterations.\<close>

theorem reported_iteration_count_witness:
  "\<exists>r m'. run_thinking_budget_sample (mock_generate 101 ''4'') () mock_tokenizer ''2+2?'' 100 =
       Some (Completed r, m') \<and>
     summary_iteration_count r = 0 \<and> length (round_lines r) = 1 \<and> length (generate_calls r) = 2"
proof -
  from mock_run_completed[of 101 100 "''4''" "''2+2?''"] obtain r outputs s where
    e: "thinking_loop (mock_generate 101 ''4'') mock_tokenizer 100 () (initial_state mock_tokenizer ''2+2?'') =
       Some (Exited outputs s, ())"
    and c: "run_thinking_budget_sample (mock_generate 101 ''4'') () mock_tokenizer ''2+2?'' 100 =
       Some (Completed r, ())"
    and rl: "round_lines r = progress s"
    and l: "length (requests s) = Suc (nat (100 div int 101))" by auto
  from exit_requests(1)[OF thinking_loop_inv[OF e]] l rl have "length (round_lines r) = 1" by simp
  with reported_iteration_count[OF c] c show ?thesis by auto
qed

end
